theory Spec2Isabelle
  imports Complex_Main "HOL-Library.Multiset"
begin

section \<open>Errors and arrays\<close>

text \<open>
  The exceptions that the modelled Python can raise. \<open>IndexError\<close>, \<open>ValueError\<close>,
  \<open>AxisError\<close> and \<open>KeyError\<close> are raised by the array and dictionary operations that \<^verbatim>\<open>myrecon.py\<close> itself
  performs; \<open>External\<close> carries the name of an exception raised inside one of the imported
  collaborators (\<^verbatim>\<open>Grappa\<close>, \<^verbatim>\<open>zero_pad_kspace_hdr\<close>, \<^verbatim>\<open>ifftnd\<close>,
  \<^verbatim>\<open>center_crop_im\<close>), whose code is not part of \<^verbatim>\<open>myrecon.py\<close>.
\<close>

datatype py_error = IndexError | ValueError | AxisError | KeyError | External string

text \<open>
  A numpy array is its shape together with its elements in row-major (C) order.
  Elements are exact: a float64 is modelled as a \<^typ>\<open>real\<close> and a complex128 as a
  \<^typ>\<open>complex\<close>; rounding, overflow and NaN are not modelled.
\<close>

record 'a ndarray =
  shape :: "nat list"
  data :: "'a list"

definition wf :: "'a ndarray \<Rightarrow> bool" where
  "wf a \<longleftrightarrow> length (data a) = prod_list (shape a)"

definition ndim :: "'a ndarray \<Rightarrow> nat" where
  "ndim a = length (shape a)"

definition np_zeros :: "nat list \<Rightarrow> ('a::zero) ndarray" where
  "np_zeros s = \<lparr>shape = s, data = replicate (prod_list s) 0\<rparr>"

definition bind_err :: "py_error + 'a \<Rightarrow> ('a \<Rightarrow> py_error + 'b) \<Rightarrow> py_error + 'b" where
  "bind_err m f = (case m of Inl e \<Rightarrow> Inl e | Inr x \<Rightarrow> f x)"

subsection \<open>Index arithmetic\<close>

text \<open>\<open>unravel s n\<close> is the multi-index of flat offset \<open>n\<close> in an array of shape \<open>s\<close>;
  \<open>ravel s idx\<close> is the flat offset of multi-index \<open>idx\<close>.\<close>

fun unravel :: "nat list \<Rightarrow> nat \<Rightarrow> nat list" where
  "unravel [] n = []"
| "unravel (d # ds) n = (n div prod_list ds) # unravel ds (n mod prod_list ds)"

fun ravel :: "nat list \<Rightarrow> nat list \<Rightarrow> nat" where
  "ravel (d # ds) (i # is) = i * prod_list ds + ravel ds is"
| "ravel _ _ = 0"

fun index_of :: "nat \<Rightarrow> nat list \<Rightarrow> nat" where
  "index_of x [] = 0"
| "index_of x (y # ys) = (if x = y then 0 else Suc (index_of x ys))"

subsection \<open>The numpy operations used by the program\<close>

text \<open>\<^verbatim>\<open>np.transpose(a, axes)\<close>: \<open>axes\<close> must be a permutation of the axes of \<open>a\<close>
  (else ValueError); axis \<open>k\<close> of the result is axis \<open>axes ! k\<close> of \<open>a\<close>.\<close>

definition np_transpose :: "'a ndarray \<Rightarrow> nat list \<Rightarrow> py_error + 'a ndarray" where
  "np_transpose a axes =
     (if sort axes \<noteq> [0..<ndim a] then Inl ValueError
      else let s' = map (\<lambda>k. shape a ! k) axes in
        Inr \<lparr>shape = s',
             data = map (\<lambda>n. data a ! ravel (shape a)
                                  (map (\<lambda>d. unravel s' n ! index_of d axes) [0..<ndim a]))
                        [0..<prod_list s']\<rparr>)"

text \<open>\<^verbatim>\<open>np.moveaxis(a, source, destination)\<close> with single non-negative axes: the other
  axes keep their order and \<open>source\<close> is inserted at position \<open>destination\<close>.\<close>

definition np_moveaxis :: "'a ndarray \<Rightarrow> nat \<Rightarrow> nat \<Rightarrow> py_error + 'a ndarray" where
  "np_moveaxis a src dst =
     (if src < ndim a \<and> dst < ndim a
      then let order = filter (\<lambda>n. n \<noteq> src) [0..<ndim a]
           in np_transpose a (take dst order @ [src] @ drop dst order)
      else Inl AxisError)"

text \<open>Reduction along axis 0: element \<open>j\<close> of the result is the sum over \<open>k\<close> of element
  \<open>(k, j)\<close>; a 0-dimensional array has no axis 0.\<close>

definition sum_axis0 :: "('a::comm_monoid_add) ndarray \<Rightarrow> py_error + 'a ndarray" where
  "sum_axis0 a =
     (case shape a of
        [] \<Rightarrow> Inl AxisError
      | n # rest \<Rightarrow>
          let m = prod_list rest in
          Inr \<lparr>shape = rest,
               data = map (\<lambda>j. sum_list (map (\<lambda>k. data a ! (k * m + j)) [0..<n])) [0..<m]\<rparr>)"

text \<open>Axis normalisation as numpy does it: \<open>- ndim \<le> axis < ndim\<close>, negative axes count
  from the end.\<close>

definition normalize_axis :: "int \<Rightarrow> nat \<Rightarrow> py_error + nat" where
  "normalize_axis axis nd =
     (if axis < - int nd \<or> int nd \<le> axis then Inl AxisError
      else Inr (nat (if axis < 0 then axis + int nd else axis)))"

text \<open>\<^verbatim>\<open>np.sum(a, axis)\<close>: the sum along \<open>axis\<close> is the sum along axis 0 of the array with
  that axis moved to the front.\<close>

definition np_sum :: "('a::comm_monoid_add) ndarray \<Rightarrow> int \<Rightarrow> py_error + 'a ndarray" where
  "np_sum a axis =
     bind_err (normalize_axis axis (ndim a)) (\<lambda>ax.
       if ax = 0 then sum_axis0 a
       else bind_err (np_moveaxis a ax 0) sum_axis0)"

text \<open>\<^verbatim>\<open>np.mean(a, axis)\<close>: the sum along the axis divided by the length of the axis.\<close>

definition np_mean :: "real ndarray \<Rightarrow> int \<Rightarrow> py_error + real ndarray" where
  "np_mean a axis =
     bind_err (normalize_axis axis (ndim a)) (\<lambda>ax.
       bind_err (np_sum a axis) (\<lambda>s.
         Inr (s\<lparr>data := map (\<lambda>x. x / real (shape a ! ax)) (data s)\<rparr>)))"

definition np_abs :: "complex ndarray \<Rightarrow> real ndarray" where
  "np_abs a = \<lparr>shape = shape a, data = map cmod (data a)\<rparr>"

definition np_square :: "real ndarray \<Rightarrow> real ndarray" where
  "np_square a = a\<lparr>data := map (\<lambda>x. x ^ 2) (data a)\<rparr>"

definition np_sqrt :: "real ndarray \<Rightarrow> real ndarray" where
  "np_sqrt a = a\<lparr>data := map sqrt (data a)\<rparr>"

text \<open>\<^verbatim>\<open>a.shape[i]\<close>: indexing the shape tuple out of range raises IndexError.\<close>

definition shape_at :: "'a ndarray \<Rightarrow> nat \<Rightarrow> py_error + nat" where
  "shape_at a i = (if i < ndim a then Inr (shape a ! i) else Inl IndexError)"

text \<open>\<^verbatim>\<open>a[i, ...]\<close>: the \<open>i\<close>-th subarray along axis 0, for a non-negative \<open>i\<close>.\<close>

definition np_getitem :: "'a ndarray \<Rightarrow> nat \<Rightarrow> py_error + 'a ndarray" where
  "np_getitem a i =
     (case shape a of
        [] \<Rightarrow> Inl IndexError
      | n # rest \<Rightarrow>
          if i < n
          then let m = prod_list rest
               in Inr \<lparr>shape = rest, data = take m (drop (i * m) (data a))\<rparr>
          else Inl IndexError)"

text \<open>\<^verbatim>\<open>a[i, :, :, :]\<close> with \<open>c\<close> colons: as \<open>a[i, ...]\<close>, but an array with fewer than
  \<open>1 + c\<close> axes has too many indices.\<close>

definition np_getitem_colons :: "'a ndarray \<Rightarrow> nat \<Rightarrow> nat \<Rightarrow> py_error + 'a ndarray" where
  "np_getitem_colons a i c = (if ndim a < 1 + c then Inl IndexError else np_getitem a i)"

text \<open>\<^verbatim>\<open>a[i, j, ...]\<close>.\<close>

definition np_getitem2 :: "'a ndarray \<Rightarrow> nat \<Rightarrow> nat \<Rightarrow> py_error + 'a ndarray" where
  "np_getitem2 a i j = bind_err (np_getitem a i) (\<lambda>b. np_getitem b j)"

text \<open>
  Broadcasting the value of an assignment to the shape \<open>t\<close> of its target. The shapes are
  aligned at their last axes; axes by which the value exceeds the target must have
  length 1; every other axis of the value has the length of the target's axis or 1 (then
  its single entry is repeated). Anything else is a ValueError.
\<close>

definition broadcastable :: "nat list \<Rightarrow> nat list \<Rightarrow> bool" where
  "broadcastable vs t \<longleftrightarrow>
     list_all (\<lambda>d. d = 1) (take (length vs - length t) vs) \<and>
     list_all2 (\<lambda>vd td. vd = td \<or> vd = 1)
       (drop (length vs - length t) vs) (drop (length t - length vs) t)"

definition broadcast_to :: "'a ndarray \<Rightarrow> nat list \<Rightarrow> py_error + 'a list" where
  "broadcast_to v t =
     (if broadcastable (shape v) t
      then let vs = drop (length (shape v) - length t) (shape v)
           in Inr (map (\<lambda>n. data v ! ravel vs
                               (map2 (\<lambda>vd i. if vd = 1 then 0 else i) vs
                                  (drop (length t - length vs) (unravel t n))))
                       [0..<prod_list t])
      else Inl ValueError)"

text \<open>\<^verbatim>\<open>a[i, ...] = v\<close> (also written \<^verbatim>\<open>a[i] = v\<close> and \<^verbatim>\<open>a[i, :, :] = v\<close>).\<close>

definition np_setitem :: "'a ndarray \<Rightarrow> nat \<Rightarrow> 'a ndarray \<Rightarrow> py_error + 'a ndarray" where
  "np_setitem a i v =
     (case shape a of
        [] \<Rightarrow> Inl IndexError
      | n # rest \<Rightarrow>
          if i < n
          then bind_err (broadcast_to v rest) (\<lambda>d.
                 let m = prod_list rest
                 in Inr (a\<lparr>data := take (i * m) (data a) @ d @ drop (Suc i * m) (data a)\<rparr>))
          else Inl IndexError)"

definition np_setitem_colons ::
    "'a ndarray \<Rightarrow> nat \<Rightarrow> nat \<Rightarrow> 'a ndarray \<Rightarrow> py_error + 'a ndarray" where
  "np_setitem_colons a i c v = (if ndim a < 1 + c then Inl IndexError else np_setitem a i v)"

text \<open>\<^verbatim>\<open>a[i, j, ...] = v\<close>.\<close>

definition np_setitem2 ::
    "'a ndarray \<Rightarrow> nat \<Rightarrow> nat \<Rightarrow> 'a ndarray \<Rightarrow> py_error + 'a ndarray" where
  "np_setitem2 a i j v =
     (case shape a of
        n0 # n1 # rest \<Rightarrow>
          if i < n0 \<and> j < n1
          then bind_err (broadcast_to v rest) (\<lambda>d.
                 let m = prod_list rest; off = (i * n1 + j) * m
                 in Inr (a\<lparr>data := take off (data a) @ d @ drop (off + m) (data a)\<rparr>))
          else Inl IndexError
      | _ \<Rightarrow> Inl IndexError)"

text \<open>\<^verbatim>\<open>np.flipud(m)\<close>: the entries along axis 0 in reverse order; a 0-dimensional input
  is a ValueError.\<close>

definition np_flipud :: "'a ndarray \<Rightarrow> py_error + 'a ndarray" where
  "np_flipud a =
     (case shape a of
        [] \<Rightarrow> Inl ValueError
      | n # rest \<Rightarrow>
          let m = prod_list rest
          in Inr (a\<lparr>data := concat (map (\<lambda>k. take m (drop ((n - 1 - k) * m) (data a))) [0..<n])\<rparr>))"

section \<open>Root sum of squares\<close>

text \<open>\<^verbatim>\<open>def rss(sig, axis=-1): return np.sqrt(np.sum(abs(sig)**2, axis))\<close>\<close>

definition rss :: "complex ndarray \<Rightarrow> int \<Rightarrow> py_error + real ndarray" where
  "rss sig axis = bind_err (np_sum (np_square (np_abs sig)) axis) (\<lambda>s. Inr (np_sqrt s))"

text \<open>The array \<^verbatim>\<open>im\<close> of \<^verbatim>\<open>t2_reconstruction\<close> once every \<^verbatim>\<open>im[average]\<close> has been
  assigned: the per-average image stacks of shape \<open>s\<close>, one after the other along axis 0.\<close>

definition stack_images :: "nat list \<Rightarrow> 'a ndarray list \<Rightarrow> 'a ndarray" where
  "stack_images s xs = \<lparr>shape = length xs # s, data = concat (map data xs)\<rparr>"

section \<open>Coil combination\<close>

text \<open>
  \<^verbatim>\<open>create_coil_combined_im\<close>. The imported \<^verbatim>\<open>ifftnd\<close> is a parameter: it takes the
  array and the list of axes and returns an array or raises.
  \<^verbatim>\<open>
  k = multicoil_multislice_kspace
  image_mat = np.zeros((k.shape[0], k.shape[2], k.shape[3]))
  for i in range(image_mat.shape[0]):
      data_sl = k[i,:,:,:]
      image = ifftnd(data_sl, [1,2])
      image = rss(image, axis = 0)
      image_mat[i,:,:] = np.flipud(image)
  return image_mat
  \<close>
\<close>

type_synonym ifft_fn = "complex ndarray \<Rightarrow> nat list \<Rightarrow> py_error + complex ndarray"

fun coil_loop ::
    "ifft_fn \<Rightarrow> complex ndarray \<Rightarrow> nat list \<Rightarrow> real ndarray \<Rightarrow> py_error + real ndarray" where
  "coil_loop ifft k [] image_mat = Inr image_mat"
| "coil_loop ifft k (i # is) image_mat =
     bind_err (np_getitem_colons k i 3) (\<lambda>data_sl.
     bind_err (ifft data_sl [1, 2]) (\<lambda>image.
     bind_err (rss image 0) (\<lambda>image.
     bind_err (np_flipud image) (\<lambda>flipped.
     bind_err (np_setitem_colons image_mat i 2 flipped) (\<lambda>image_mat'.
     coil_loop ifft k is image_mat')))))"

definition create_coil_combined_im :: "ifft_fn \<Rightarrow> complex ndarray \<Rightarrow> py_error + real ndarray" where
  "create_coil_combined_im ifft k =
     bind_err (shape_at k 0) (\<lambda>n0.
     bind_err (shape_at k 2) (\<lambda>n2.
     bind_err (shape_at k 3) (\<lambda>n3.
     coil_loop ifft k [0..<n0] (np_zeros [n0, n2, n3]))))"

text \<open>
  The coil combination in the words of the specification, for one slice image \<open>img\<close> of
  shape (coils, rows, columns) that the inverse transform returned: the entry at row \<open>y\<close>
  and column \<open>x\<close> is the square root of the sum over the coils of the squared magnitude
  at row \<open>rows - 1 - y\<close> (the vertical flip) and column \<open>x\<close>.
\<close>

definition combine_spec :: "complex ndarray \<Rightarrow> real ndarray" where
  "combine_spec img =
     (let c = shape img ! 0; r = shape img ! 1; p = shape img ! 2
      in \<lparr>shape = [r, p],
          data = map (\<lambda>n. sqrt (\<Sum>k\<leftarrow>[0..<c].
                        (cmod (data img ! ravel [c, r, p] [k, r - 1 - n div p, n mod p]))\<^sup>2))
                     [0..<r * p]\<rparr>)"

section \<open>The reconstruction pipeline\<close>

text \<open>
  The collaborators that \<^verbatim>\<open>myrecon.py\<close> imports from the \<^verbatim>\<open>fastmri_prostate\<close> package
  are parameters of the model: the \<^verbatim>\<open>Grappa\<close> constructor (reference k-space, kernel
  size, coil axis) with its methods \<^verbatim>\<open>compute_weights\<close> and \<^verbatim>\<open>apply_weights\<close>,
  \<^verbatim>\<open>zero_pad_kspace_hdr\<close>, \<^verbatim>\<open>ifftnd\<close> and \<^verbatim>\<open>center_crop_im\<close>. Each returns a value
  or raises; none of them writes to an array it is given, and an engine (type \<open>'e\<close>) and a
  weight set (type \<open>'w\<close>) are values.
\<close>

record ('e, 'w) externals =
  Grappa :: "complex ndarray \<Rightarrow> nat \<times> nat \<Rightarrow> nat \<Rightarrow> py_error + 'e"
  compute_weights :: "'e \<Rightarrow> complex ndarray \<Rightarrow> py_error + 'w"
  apply_weights :: "'e \<Rightarrow> complex ndarray \<Rightarrow> 'w \<Rightarrow> py_error + complex ndarray"
  zero_pad_kspace_hdr :: "string \<Rightarrow> complex ndarray \<Rightarrow> py_error + complex ndarray"
  ifftnd :: ifft_fn
  center_crop_im :: "real ndarray \<Rightarrow> nat list \<Rightarrow> py_error + real ndarray"

text \<open>The calls made on the engines, in the order in which they are made. A call is
  recorded when it is made, whether it returns or raises.\<close>

datatype ('e, 'w) event =
    Call_Grappa "complex ndarray"
  | Call_compute_weights 'e "complex ndarray"
  | Call_apply_weights 'e "complex ndarray" 'w

fun is_init :: "('e, 'w) event \<Rightarrow> bool" where
  "is_init (Call_Grappa _) = True"
| "is_init _ = False"

fun is_compute :: "('e, 'w) event \<Rightarrow> bool" where
  "is_compute (Call_compute_weights _ _) = True"
| "is_compute _ = False"

fun is_apply :: "('e, 'w) event \<Rightarrow> bool" where
  "is_apply (Call_apply_weights _ _ _) = True"
| "is_apply _ = False"

text \<open>
  The arrays and dictionaries that \<^verbatim>\<open>t2_reconstruction\<close> holds, and the trace of engine
  calls. \<open>kspace_data\<close> and \<open>calib_data\<close> are the caller's arrays; the two dictionaries,
  \<open>kspace_post_grappa_all\<close> and \<open>im\<close> are created by the function (before their creation
  the buffer fields hold an empty placeholder).
\<close>

record ('e, 'w) state =
  kspace_data :: "complex ndarray"
  calib_data :: "complex ndarray"
  grappa_weight_dict :: "nat \<rightharpoonup> 'w"
  grappa_weight_dict_2 :: "nat \<rightharpoonup> 'w"
  kspace_post_grappa_all :: "complex ndarray"
  im :: "real ndarray"
  trace :: "('e, 'w) event list"

text \<open>A statement either raises or returns a value, and leaves a state behind in both
  cases.\<close>

type_synonym ('a, 's) prog = "'s \<Rightarrow> (py_error + 'a) \<times> 's"

definition seq :: "('a, 's) prog \<Rightarrow> ('a \<Rightarrow> ('b, 's) prog) \<Rightarrow> ('b, 's) prog" where
  "seq m f s = (case m s of (Inl e, s') \<Rightarrow> (Inl e, s') | (Inr x, s') \<Rightarrow> f x s')"

definition lift :: "py_error + 'a \<Rightarrow> ('a, 's) prog" where
  "lift r s = (r, s)"

definition get :: "('s \<Rightarrow> 'a) \<Rightarrow> ('a, 's) prog" where
  "get f s = (Inr (f s), s)"

definition modify :: "('s \<Rightarrow> 's) \<Rightarrow> (unit, 's) prog" where
  "modify f s = (Inr (), f s)"

definition record_call :: "('e, 'w) event \<Rightarrow> (unit, ('e, 'w) state) prog" where
  "record_call ev = modify (\<lambda>s. s\<lparr>trace := trace s @ [ev]\<rparr>)"

definition lookup :: "(nat \<rightharpoonup> 'w) \<Rightarrow> nat \<Rightarrow> py_error + 'w" where
  "lookup d k = (case d k of None \<Rightarrow> Inl KeyError | Some w \<Rightarrow> Inr w)"

text \<open>
  \<^verbatim>\<open>
  for slice_num in range(num_slices):
      calibration_regridded = calib_data[slice_num, ...]
      grappa_weight_dict[slice_num] = grappa_obj.compute_weights(
          np.transpose(calibration_regridded, (2, 0 ,1)))
      grappa_weight_dict_2[slice_num] = grappa_obj_2.compute_weights(
          np.transpose(calibration_regridded, (2, 0 ,1)))
  \<close>
\<close>

fun weights_loop ::
    "('e, 'w) externals \<Rightarrow> 'e \<Rightarrow> 'e \<Rightarrow> nat list \<Rightarrow> (unit, ('e, 'w) state) prog" where
  "weights_loop ext grappa_obj grappa_obj_2 [] = lift (Inr ())"
| "weights_loop ext grappa_obj grappa_obj_2 (slice_num # rest) =
     seq (get calib_data) (\<lambda>c.
     seq (lift (np_getitem c slice_num)) (\<lambda>calibration_regridded.
     seq (lift (np_transpose calibration_regridded [2, 0, 1])) (\<lambda>t.
     seq (record_call (Call_compute_weights grappa_obj t)) (\<lambda>_.
     seq (lift (compute_weights ext grappa_obj t)) (\<lambda>w.
     seq (modify (\<lambda>s. s\<lparr>grappa_weight_dict := (grappa_weight_dict s)(slice_num \<mapsto> w)\<rparr>)) (\<lambda>_.
     seq (lift (np_transpose calibration_regridded [2, 0, 1])) (\<lambda>t2.
     seq (record_call (Call_compute_weights grappa_obj_2 t2)) (\<lambda>_.
     seq (lift (compute_weights ext grappa_obj_2 t2)) (\<lambda>w2.
     seq (modify (\<lambda>s. s\<lparr>grappa_weight_dict_2 := (grappa_weight_dict_2 s)(slice_num \<mapsto> w2)\<rparr>)) (\<lambda>_.
     weights_loop ext grappa_obj grappa_obj_2 rest))))))))))"

text \<open>
  The body of the loop over the averages, for one average with its engine and its
  dictionary of weights:
  \<^verbatim>\<open>
  for slice_num in range(num_slices):
      kspace_slice_regridded = kspace_data[average, slice_num, ...]
      kspace_post_grappa = grappa_obj.apply_weights(
          np.transpose(kspace_slice_regridded, (2, 0, 1)),
          grappa_weight_dict[slice_num])
      kspace_post_grappa_all[average, slice_num, ...] =
          np.moveaxis(np.moveaxis(kspace_post_grappa, 0, 1), 1, 2)
  \<close>
\<close>

fun apply_slices ::
    "('e, 'w) externals \<Rightarrow> nat \<Rightarrow> 'e \<Rightarrow> (nat \<rightharpoonup> 'w) \<Rightarrow> nat list
       \<Rightarrow> (unit, ('e, 'w) state) prog" where
  "apply_slices ext average grappa_obj weight_dict [] = lift (Inr ())"
| "apply_slices ext average grappa_obj weight_dict (slice_num # rest) =
     seq (get kspace_data) (\<lambda>k.
     seq (lift (np_getitem2 k average slice_num)) (\<lambda>kspace_slice_regridded.
     seq (lift (np_transpose kspace_slice_regridded [2, 0, 1])) (\<lambda>t.
     seq (lift (lookup weight_dict slice_num)) (\<lambda>w.
     seq (record_call (Call_apply_weights grappa_obj t w)) (\<lambda>_.
     seq (lift (apply_weights ext grappa_obj t w)) (\<lambda>kspace_post_grappa.
     seq (lift (bind_err (np_moveaxis kspace_post_grappa 0 1) (\<lambda>x. np_moveaxis x 1 2))) (\<lambda>v.
     seq (get kspace_post_grappa_all) (\<lambda>buf.
     seq (lift (np_setitem2 buf average slice_num v)) (\<lambda>buf'.
     seq (modify (\<lambda>s. s\<lparr>kspace_post_grappa_all := buf'\<rparr>)) (\<lambda>_.
     apply_slices ext average grappa_obj weight_dict rest))))))))))"

text \<open>
  \<^verbatim>\<open>for average, grappa_obj, grappa_weight_dict in zip([0, 1, 2], [...], [...])\<close>: the
  three lists are built once, before the first iteration, from the bindings that hold
  then; inside the loop the names \<^verbatim>\<open>grappa_obj\<close> and \<^verbatim>\<open>grappa_weight_dict\<close> denote the
  components of the current triple.
\<close>

fun apply_averages ::
    "('e, 'w) externals \<Rightarrow> (nat \<times> 'e \<times> (nat \<rightharpoonup> 'w)) list \<Rightarrow> nat list
       \<Rightarrow> (unit, ('e, 'w) state) prog" where
  "apply_averages ext [] slices = lift (Inr ())"
| "apply_averages ext ((average, grappa_obj, weight_dict) # rest) slices =
     seq (apply_slices ext average grappa_obj weight_dict slices) (\<lambda>_.
     apply_averages ext rest slices)"

text \<open>
  \<^verbatim>\<open>
  for average in range(num_avg):
      kspace_grappa = kspace_post_grappa_all[average, ...]
      kspace_grappa_padded = zero_pad_kspace_hdr(hdr, kspace_grappa)
      im[average] = create_coil_combined_im(kspace_grappa_padded)
  \<close>
\<close>

fun recon_loop ::
    "('e, 'w) externals \<Rightarrow> string \<Rightarrow> nat list \<Rightarrow> (unit, ('e, 'w) state) prog" where
  "recon_loop ext hdr [] = lift (Inr ())"
| "recon_loop ext hdr (average # rest) =
     seq (get kspace_post_grappa_all) (\<lambda>buf.
     seq (lift (np_getitem buf average)) (\<lambda>kspace_grappa.
     seq (lift (zero_pad_kspace_hdr ext hdr kspace_grappa)) (\<lambda>kspace_grappa_padded.
     seq (lift (create_coil_combined_im (ifftnd ext) kspace_grappa_padded)) (\<lambda>img.
     seq (get im) (\<lambda>i.
     seq (lift (np_setitem i average img)) (\<lambda>i'.
     seq (modify (\<lambda>s. s\<lparr>im := i'\<rparr>)) (\<lambda>_.
     recon_loop ext hdr rest)))))))"

text \<open>\<^verbatim>\<open>num_avg, num_slices, num_coils, num_ro, num_pe = kspace_data.shape\<close>: a shape that
  does not have five entries cannot be unpacked.\<close>

definition unpack5 :: "nat list \<Rightarrow> py_error + nat \<times> nat \<times> nat \<times> nat \<times> nat" where
  "unpack5 s = (case s of [a, b, c, d, e] \<Rightarrow> Inr (a, b, c, d, e) | _ \<Rightarrow> Inl ValueError)"

text \<open>
  The body of \<^verbatim>\<open>t2_reconstruction\<close>, statement by statement, in the three parts that
  the comments of the source mark. First the shape, the two engines and the weights:
  \<^verbatim>\<open>
  num_avg, num_slices, num_coils, num_ro, num_pe = kspace_data.shape
  grappa_weight_dict = {}
  grappa_weight_dict_2 = {}
  kspace_slice_regridded = kspace_data[0, 0, ...]
  grappa_obj = Grappa(np.transpose(kspace_slice_regridded, (2, 0, 1)),
                      kernel_size=(5, 5), coil_axis=1)
  kspace_slice_regridded_2 = kspace_data[1, 0, ...]
  grappa_obj_2 = Grappa(np.transpose(kspace_slice_regridded_2, (2, 0, 1)),
                        kernel_size=(5, 5), coil_axis=1)
  # calculate GRAPPA weights
  for slice_num in range(num_slices): ...
  \<close>
  It returns the local variables that the later parts read.
\<close>

definition calculate_weights ::
    "('e, 'w) externals
       \<Rightarrow> ((nat \<times> nat \<times> nat \<times> nat \<times> nat) \<times> 'e \<times> 'e, ('e, 'w) state) prog" where
  "calculate_weights ext =
     seq (get kspace_data) (\<lambda>k.
     seq (lift (unpack5 (shape k))) (\<lambda>(num_avg, num_slices, num_coils, num_ro, num_pe).
     seq (modify (\<lambda>s. s\<lparr>grappa_weight_dict := Map.empty, grappa_weight_dict_2 := Map.empty\<rparr>)) (\<lambda>_.
     seq (lift (np_getitem2 k 0 0)) (\<lambda>kspace_slice_regridded.
     seq (lift (np_transpose kspace_slice_regridded [2, 0, 1])) (\<lambda>t.
     seq (record_call (Call_Grappa t)) (\<lambda>_.
     seq (lift (Grappa ext t (5, 5) 1)) (\<lambda>grappa_obj.
     seq (lift (np_getitem2 k 1 0)) (\<lambda>kspace_slice_regridded_2.
     seq (lift (np_transpose kspace_slice_regridded_2 [2, 0, 1])) (\<lambda>t2.
     seq (record_call (Call_Grappa t2)) (\<lambda>_.
     seq (lift (Grappa ext t2 (5, 5) 1)) (\<lambda>grappa_obj_2.
     seq (weights_loop ext grappa_obj grappa_obj_2 [0..<num_slices]) (\<lambda>_.
     lift (Inr ((num_avg, num_slices, num_coils, num_ro, num_pe),
                grappa_obj, grappa_obj_2))))))))))))))"

text \<open>
  \<^verbatim>\<open>
  # apply GRAPPA weights
  kspace_post_grappa_all = np.zeros(shape=kspace_data.shape, dtype=complex)
  for average, grappa_obj, grappa_weight_dict in zip(
      [0, 1, 2],
      [grappa_obj, grappa_obj_2, grappa_obj],
      [grappa_weight_dict, grappa_weight_dict_2, grappa_weight_dict]): ...
  \<close>
\<close>

definition apply_weights_phase ::
    "('e, 'w) externals \<Rightarrow> nat \<Rightarrow> 'e \<Rightarrow> 'e \<Rightarrow> (unit, ('e, 'w) state) prog" where
  "apply_weights_phase ext num_slices grappa_obj grappa_obj_2 =
     seq (get kspace_data) (\<lambda>k.
     seq (modify (\<lambda>s. s\<lparr>kspace_post_grappa_all := np_zeros (shape k)\<rparr>)) (\<lambda>_.
     seq (get grappa_weight_dict) (\<lambda>d.
     seq (get grappa_weight_dict_2) (\<lambda>d2.
     apply_averages ext
       (zip [0, 1, 2] (zip [grappa_obj, grappa_obj_2, grappa_obj] [d, d2, d]))
       [0..<num_slices]))))"

text \<open>
  \<^verbatim>\<open>
  # recon image for each average
  im = np.zeros((num_avg, num_slices, num_ro, num_ro))
  for average in range(num_avg): ...
  im_3d = np.mean(im, axis = 0)
  img_dict = {}
  img_dict['reconstruction_rss'] = center_crop_im(im_3d, [320, 320])
  return img_dict
  \<close>
  The dictionary that is returned is the list of its items.
\<close>

definition recon_phase ::
    "('e, 'w) externals \<Rightarrow> string \<Rightarrow> nat \<Rightarrow> nat \<Rightarrow> nat
       \<Rightarrow> ((string \<times> real ndarray) list, ('e, 'w) state) prog" where
  "recon_phase ext hdr num_avg num_slices num_ro =
     seq (modify (\<lambda>s. s\<lparr>im := np_zeros [num_avg, num_slices, num_ro, num_ro]\<rparr>)) (\<lambda>_.
     seq (recon_loop ext hdr [0..<num_avg]) (\<lambda>_.
     seq (get im) (\<lambda>i.
     seq (lift (np_mean i 0)) (\<lambda>im_3d.
     seq (lift (center_crop_im ext im_3d [320, 320])) (\<lambda>cropped.
     lift (Inr [(''reconstruction_rss'', cropped)]))))))"

definition t2_body ::
    "('e, 'w) externals \<Rightarrow> string
       \<Rightarrow> ((string \<times> real ndarray) list, ('e, 'w) state) prog" where
  "t2_body ext hdr =
     seq (calculate_weights ext)
       (\<lambda>((num_avg, num_slices, num_coils, num_ro, num_pe), grappa_obj, grappa_obj_2).
     seq (apply_weights_phase ext num_slices grappa_obj grappa_obj_2) (\<lambda>_.
     recon_phase ext hdr num_avg num_slices num_ro))"

definition init_state :: "complex ndarray \<Rightarrow> complex ndarray \<Rightarrow> ('e, 'w) state" where
  "init_state k c =
     \<lparr>kspace_data = k, calib_data = c, grappa_weight_dict = Map.empty,
      grappa_weight_dict_2 = Map.empty, kspace_post_grappa_all = np_zeros [0],
      im = np_zeros [0], trace = []\<rparr>"

text \<open>\<^verbatim>\<open>t2_reconstruction(kspace_data, calib_data, hdr)\<close>: what it returns or raises, and
  the state it leaves.\<close>

definition t2_reconstruction ::
    "('e, 'w) externals \<Rightarrow> complex ndarray \<Rightarrow> complex ndarray \<Rightarrow> string
       \<Rightarrow> (py_error + (string \<times> real ndarray) list) \<times> ('e, 'w) state" where
  "t2_reconstruction ext k c hdr = t2_body ext hdr (init_state k c)"

text \<open>\<open>adds Q s s'\<close>: the trace of \<open>s'\<close> is the trace of \<open>s\<close> followed by calls that all
  satisfy \<open>Q\<close>.\<close>

definition adds :: "(('e, 'w) event \<Rightarrow> bool) \<Rightarrow> ('e, 'w) state \<Rightarrow> ('e, 'w) state \<Rightarrow> bool" where
  "adds Q s s' \<longleftrightarrow> (\<exists>evs. trace s' = trace s @ evs \<and> list_all Q evs)"

text \<open>From the first call of \<^verbatim>\<open>apply_weights\<close> on, the trace holds no other kind of
  call.\<close>

definition computes_before_applies :: "('e, 'w) event list \<Rightarrow> bool" where
  "computes_before_applies tr \<longleftrightarrow> list_all is_apply (dropWhile (\<lambda>e. \<not> is_apply e) tr)"

definition has_apply :: "('e, 'w) event list \<Rightarrow> bool" where
  "has_apply tr \<longleftrightarrow> list_ex is_apply tr"

text \<open>What a loop over \<open>n\<close> slices that ended with \<open>r\<close> has added to the trace: calls of
  \<^verbatim>\<open>compute_weights\<close> only, two for each slice if it ran to its end, and if one of them
  raised then \<open>r\<close> is that exception.\<close>

definition weights_post ::
  "('e, 'w) externals \<Rightarrow> nat \<Rightarrow> (py_error + 'a) \<Rightarrow> ('e, 'w) event list \<Rightarrow> bool" where
  "weights_post ext n r evs \<longleftrightarrow>
     list_all is_compute evs \<and>
     (\<forall>x. r = Inr x \<longrightarrow> length evs = 2 * n) \<and>
     (\<forall>E t e. Call_compute_weights E t \<in> set evs \<longrightarrow> compute_weights ext E t = Inl e
        \<longrightarrow> r = Inl e)"

text \<open>
  Stand-ins for the collaborators, for running the pipeline on concrete inputs: an engine
  is the reference k-space it was built from, a weight set is the pair of the engine and
  the calibration data it was computed from, and every other collaborator returns the
  array it is given.
\<close>

definition passthrough ::
    "(complex ndarray, complex ndarray \<times> complex ndarray) externals" where
  "passthrough =
     \<lparr>Grappa = (\<lambda>ref kernel_size coil_axis. Inr ref),
      compute_weights = (\<lambda>engine calib. Inr (engine, calib)),
      apply_weights = (\<lambda>engine kspace weights. Inr kspace),
      zero_pad_kspace_hdr = (\<lambda>hdr kspace. Inr kspace),
      ifftnd = (\<lambda>kspace axes. Inr kspace),
      center_crop_im = (\<lambda>image size. Inr image)\<rparr>"

text \<open>The same, with an engine that rejects every calibration region.\<close>

definition failing_calibration ::
    "(complex ndarray, complex ndarray \<times> complex ndarray) externals" where
  "failing_calibration =
     passthrough\<lparr>compute_weights :=
       (\<lambda>engine calib. Inl (External ''CalibrationInsufficientError''))\<rparr>"

text \<open>A k-space of shape (3, 1, 1, 1, 1) and calibration data of shape (1, 1, 1, 1).\<close>

definition kspace_3_1_1_1_1 :: "complex ndarray" where
  "kspace_3_1_1_1_1 = \<lparr>shape = [3, 1, 1, 1, 1], data = [0, 1, 0]\<rparr>"

definition calib_1_1_1_1 :: "complex ndarray" where
  "calib_1_1_1_1 = \<lparr>shape = [1, 1, 1, 1], data = [1]\<rparr>"

text \<open>The arguments of the engine calls: \<^verbatim>\<open>np.transpose(kspace_data[average, slice_num,
  ...], (2, 0, 1))\<close> and \<^verbatim>\<open>np.transpose(calib_data[slice_num, ...], (2, 0, 1))\<close>; the
  weights that an engine computes for a slice; and the call of \<^verbatim>\<open>apply_weights\<close> for an
  average and a slice in which the given engine gets the weights that this same engine
  computed for the slice.\<close>

definition engine_input :: "complex ndarray \<Rightarrow> nat \<Rightarrow> nat \<Rightarrow> py_error + complex ndarray" where
  "engine_input k average slice_num =
     bind_err (np_getitem2 k average slice_num) (\<lambda>x. np_transpose x [2, 0, 1])"

definition calib_input :: "complex ndarray \<Rightarrow> nat \<Rightarrow> py_error + complex ndarray" where
  "calib_input c slice_num = bind_err (np_getitem c slice_num) (\<lambda>x. np_transpose x [2, 0, 1])"

definition slice_weights ::
    "('e, 'w) externals \<Rightarrow> complex ndarray \<Rightarrow> 'e \<Rightarrow> nat \<Rightarrow> py_error + 'w" where
  "slice_weights ext c engine slice_num =
     bind_err (calib_input c slice_num) (compute_weights ext engine)"

definition expected_apply ::
    "('e, 'w) externals \<Rightarrow> complex ndarray \<Rightarrow> complex ndarray \<Rightarrow> nat \<Rightarrow> 'e \<Rightarrow> nat
       \<Rightarrow> py_error + ('e, 'w) event" where
  "expected_apply ext k c average engine slice_num =
     bind_err (engine_input k average slice_num) (\<lambda>t.
     bind_err (slice_weights ext c engine slice_num) (\<lambda>w.
     Inr (Call_apply_weights engine t w)))"

text \<open>The caller's two arrays are the same in both states.\<close>

definition same_inputs :: "('e, 'w) state \<Rightarrow> ('e, 'w) state \<Rightarrow> bool" where
  "same_inputs s s' \<longleftrightarrow> kspace_data s' = kspace_data s \<and> calib_data s' = calib_data s"

text \<open>The call of \<^verbatim>\<open>apply_weights\<close> that one iteration of the inner loop makes, given the
  dictionary it reads.\<close>

definition slice_apply ::
    "complex ndarray \<Rightarrow> nat \<Rightarrow> 'e \<Rightarrow> (nat \<rightharpoonup> 'w) \<Rightarrow> nat \<Rightarrow> py_error + ('e, 'w) event" where
  "slice_apply k average engine d slice_num =
     bind_err (engine_input k average slice_num) (\<lambda>t.
     bind_err (lookup d slice_num) (\<lambda>w. Inr (Call_apply_weights engine t w)))"

text \<open>A k-space with two averages, shape (2, 1, 1, 1, 1).\<close>

definition kspace_2_1_1_1_1 :: "complex ndarray" where
  "kspace_2_1_1_1_1 = \<lparr>shape = [2, 1, 1, 1, 1], data = [0, 1]\<rparr>"

text \<open>
  What the claims assume of the collaborators. The engines can be built from slice 0 of
  averages 0 and 1, and both compute weights for every slice below \<open>ns\<close>:
\<close>

definition engines_ready ::
    "('e, 'w) externals \<Rightarrow> complex ndarray \<Rightarrow> complex ndarray \<Rightarrow> nat \<Rightarrow> bool" where
  "engines_ready ext k c ns \<longleftrightarrow>
     (\<exists>A B. bind_err (engine_input k 0 0) (\<lambda>t. Grappa ext t (5, 5) 1) = Inr A \<and>
            bind_err (engine_input k 1 0) (\<lambda>t. Grappa ext t (5, 5) 1) = Inr B \<and>
            (\<forall>s<ns. (\<exists>w. slice_weights ext c A s = Inr w) \<and>
                     (\<exists>w. slice_weights ext c B s = Inr w)))"

text \<open>\<^verbatim>\<open>apply_weights\<close> returns an array of the shape of the k-space it is given:\<close>

definition apply_keeps_shape :: "('e, 'w) externals \<Rightarrow> bool" where
  "apply_keeps_shape ext \<longleftrightarrow>
     (\<forall>E t w. wf t \<longrightarrow> (\<exists>r. apply_weights ext E t w = Inr r \<and> wf r \<and> shape r = shape t))"








text \<open>Every element of the array is zero.\<close>

definition all_zero :: "('a::zero) ndarray \<Rightarrow> bool" where
  "all_zero a \<longleftrightarrow> list_all (\<lambda>x. x = 0) (data a)"

text \<open>A collaborator that, when it returns, turns an all-zero array into an all-zero
  array.\<close>

definition maps_zero_to_zero ::
    "(('a::zero) ndarray \<Rightarrow> py_error + ('b::zero) ndarray) \<Rightarrow> bool" where
  "maps_zero_to_zero f \<longleftrightarrow> (\<forall>a r. wf a \<and> all_zero a \<and> f a = Inr r \<longrightarrow> wf r \<and> all_zero r)"

text \<open>The arrays that the pipeline holds are well-formed and all zero.\<close>

definition zeros_inv :: "('e, 'w) state \<Rightarrow> bool" where
  "zeros_inv s \<longleftrightarrow>
     wf (kspace_data s) \<and> all_zero (kspace_data s) \<and>
     wf (kspace_post_grappa_all s) \<and> all_zero (kspace_post_grappa_all s) \<and>
     wf (im s) \<and> all_zero (im s)"

section \<open>Basic facts\<close>

lemma bind_err_Inr [simp]: "bind_err (Inr x) f = f x"
  by (simp add: bind_err_def)

lemma bind_err_Inl [simp]: "bind_err (Inl e) f = Inl e"
  by (simp add: bind_err_def)

lemma normalize_axis_0 [simp]: "0 < nd \<Longrightarrow> normalize_axis 0 nd = Inr 0"
  by (simp add: normalize_axis_def)





subsection \<open>Index arithmetic and broadcasting\<close>

lemma unravel_length [simp]: "length (unravel s n) = length s"
  by (induction s arbitrary: n) auto

lemma ravel_unravel: "n < prod_list s \<Longrightarrow> ravel s (unravel s n) = n"
proof (induction s arbitrary: n)
  case Nil then show ?case by simp
next
  case (Cons d ds)
  then have pos: "0 < prod_list ds" by (cases "prod_list ds = 0") auto
  then have "n mod prod_list ds < prod_list ds" by simp
  then have "ravel ds (unravel ds (n mod prod_list ds)) = n mod prod_list ds"
    by (rule Cons.IH)
  then show ?case by simp
qed

lemma unravel_bound: "n < prod_list s \<Longrightarrow> list_all2 (<) (unravel s n) s"
proof (induction s arbitrary: n)
  case Nil then show ?case by simp
next
  case (Cons d ds)
  then have pos: "0 < prod_list ds" by (cases "prod_list ds = 0") auto
  have "n div prod_list ds < d"
    using Cons.prems pos by (simp add: less_mult_imp_div_less mult.commute)
  moreover have "list_all2 (<) (unravel ds (n mod prod_list ds)) ds"
    using pos by (intro Cons.IH) simp
  ultimately show ?case by simp
qed

lemma map2_unit_axis_id:
  "list_all2 (<) idx (s :: nat list) \<Longrightarrow>
     map2 (\<lambda>vd i. if vd = 1 then 0 else i) s idx = (idx :: nat list)"
proof (induction idx s rule: list_all2_induct)
  case Nil then show ?case by simp
next
  case (Cons i idx d s)
  then show ?case by (cases "d = 1") simp_all
qed

lemma broadcastable_refl [simp]: "broadcastable s s"
  by (simp add: broadcastable_def list_all2_same)

lemma broadcast_to_same:
  assumes "wf v"
  shows "broadcast_to v (shape v) = Inr (data v)"
proof -
  have "map (\<lambda>n. data v ! ravel (shape v)
               (map2 (\<lambda>vd i. if vd = 1 then 0 else i) (shape v) (unravel (shape v) n)))
            [0..<prod_list (shape v)] = data v"
  proof (rule nth_equalityI)
    show "length (map (\<lambda>n. data v ! ravel (shape v)
               (map2 (\<lambda>vd i. if vd = 1 then 0 else i) (shape v) (unravel (shape v) n)))
            [0..<prod_list (shape v)]) = length (data v)"
      using assms by (simp add: wf_def)
  next
    fix i
    assume "i < length (map (\<lambda>n. data v ! ravel (shape v)
               (map2 (\<lambda>vd i. if vd = 1 then 0 else i) (shape v) (unravel (shape v) n)))
            [0..<prod_list (shape v)])"
    then have i: "i < prod_list (shape v)" by simp
    have "map2 (\<lambda>vd i. if vd = 1 then 0 else i) (shape v) (unravel (shape v) i)
          = unravel (shape v) i"
      by (rule map2_unit_axis_id [OF unravel_bound [OF i]])
    then have "ravel (shape v)
        (map2 (\<lambda>vd i. if vd = 1 then 0 else i) (shape v) (unravel (shape v) i)) = i"
      using ravel_unravel [OF i] by (simp only:)
    then show "map (\<lambda>n. data v ! ravel (shape v)
               (map2 (\<lambda>vd i. if vd = 1 then 0 else i) (shape v) (unravel (shape v) n)))
            [0..<prod_list (shape v)] ! i = data v ! i"
      using i by (simp del: One_nat_def)
  qed
  then show ?thesis by (simp add: broadcast_to_def)
qed

lemma concat_map_rows:
  "concat (map (\<lambda>y. map (h y) [0..<p]) [0..<r]) = map (\<lambda>n. h (n div p) (n mod p)) [0..<r * p]"
proof (induction r)
  case 0 then show ?case by simp
next
  case (Suc r)
  have "[0..<Suc r * p] = [0..<r * p] @ map (\<lambda>x. x + r * p) [0..<p]"
    using upt_add_eq_append [of 0 "r * p" p] by (simp add: map_add_upt add.commute)
  then have "map (\<lambda>n. h (n div p) (n mod p)) [0..<Suc r * p]
       = map (\<lambda>n. h (n div p) (n mod p)) [0..<r * p] @ map (\<lambda>x. h r x) [0..<p]"
    by (simp add: o_def)
  with Suc show ?case by simp
qed

subsection \<open>One slice of the coil combination\<close>

lemma take_drop_map_upt:
  assumes "q < r"
  shows "take p (drop (q * p) (map g [0..<r * p])) = map (\<lambda>x. g (q * p + x)) [0..<p]"
proof -
  have "q * p + p \<le> r * p"
    using assms by (metis Suc_leI mult_Suc mult_le_mono1 add.commute)
  then have "take p (drop (q * p) [0..<r * p]) = [q * p..<q * p + p]"
    by (simp add: take_upt)
  also have "\<dots> = map (\<lambda>x. q * p + x) [0..<p]"
    by (simp add: map_add_upt add.commute)
  finally show ?thesis
    by (simp add: take_map drop_map o_def)
qed

lemma rss_axis0_3d:
  assumes "wf img" and "shape img = [c, r, p]"
  shows "rss img 0 = Inr \<lparr>shape = [r, p],
     data = map (\<lambda>j. sqrt (\<Sum>k\<leftarrow>[0..<c]. (cmod (data img ! (k * (r * p) + j)))\<^sup>2)) [0..<r * p]\<rparr>"
proof -
  have len: "length (data img) = c * (r * p)"
    using assms by (simp add: wf_def)
  have inr: "k * (r * p) + j < c * (r * p)" if "k < c" and "j < r * p" for k j
  proof -
    have "k * (r * p) + j < Suc k * (r * p)" using that by simp
    also have "\<dots> \<le> c * (r * p)" using that by (intro mult_le_mono1) simp
    finally show ?thesis .
  qed
  have "(\<Sum>k\<leftarrow>[0..<c]. map (\<lambda>x. x\<^sup>2) (map cmod (data img)) ! (k * (r * p) + j))
        = (\<Sum>k\<leftarrow>[0..<c]. (cmod (data img ! (k * (r * p) + j)))\<^sup>2)"
    if "j < r * p" for j
  proof -
    have "map (\<lambda>k. map (\<lambda>x. x\<^sup>2) (map cmod (data img)) ! (k * (r * p) + j)) [0..<c]
          = map (\<lambda>k. (cmod (data img ! (k * (r * p) + j)))\<^sup>2) [0..<c]"
      using inr that len by (intro map_cong) simp_all
    then show ?thesis by (rule arg_cong)
  qed
  then have "map (\<lambda>j. \<Sum>k\<leftarrow>[0..<c]. map (\<lambda>x. x\<^sup>2) (map cmod (data img)) ! (k * (r * p) + j)) [0..<r * p]
      = map (\<lambda>j. \<Sum>k\<leftarrow>[0..<c]. (cmod (data img ! (k * (r * p) + j)))\<^sup>2) [0..<r * p]"
    by (intro map_cong) simp_all
  then show ?thesis
    using assms(2)
    by (simp add: rss_def np_sum_def ndim_def sum_axis0_def np_square_def np_abs_def
        np_sqrt_def o_def Let_def)
qed

lemma rss_flipud_spec:
  assumes "wf img" and "shape img = [c, r, p]"
  shows "bind_err (rss img 0) np_flipud = Inr (combine_spec img)"
proof -
  define g where "g j = sqrt (\<Sum>k\<leftarrow>[0..<c]. (cmod (data img ! (k * (r * p) + j)))\<^sup>2)" for j
  have "map (\<lambda>y. take p (drop ((r - 1 - y) * p) (map g [0..<r * p]))) [0..<r]
        = map (\<lambda>y. map (\<lambda>x. g ((r - 1 - y) * p + x)) [0..<p]) [0..<r]"
    by (intro map_cong refl take_drop_map_upt) auto
  then have "concat (map (\<lambda>y. take p (drop ((r - 1 - y) * p) (map g [0..<r * p]))) [0..<r])
        = map (\<lambda>n. g ((r - 1 - n div p) * p + n mod p)) [0..<r * p]"
    by (simp only: concat_map_rows)
  then have "bind_err (rss img 0) np_flipud
     = Inr \<lparr>shape = [r, p], data = map (\<lambda>n. g ((r - 1 - n div p) * p + n mod p)) [0..<r * p]\<rparr>"
    unfolding rss_axis0_3d [OF assms] g_def [symmetric]
    by (simp add: np_flipud_def)
  then show ?thesis
    using assms(2) by (simp add: combine_spec_def g_def)
qed

subsection \<open>The loop over the slices\<close>

lemma np_setitem_same_shape:
  assumes "wf v" and "shape a = n # shape v" and "i < n"
  shows "np_setitem a i v = Inr (a\<lparr>data := take (i * prod_list (shape v)) (data a) @ data v
            @ drop (Suc i * prod_list (shape v)) (data a)\<rparr>)"
  using assms by (simp add: np_setitem_def broadcast_to_same Let_def)

lemma concat_upt_Suc:
  "concat (map f [0..<Suc i]) = concat (map f [0..<i]) @ f i"
  by simp

lemma coil_loop_upt:
  assumes step: "\<And>j. j < n0 \<Longrightarrow>
        bind_err (np_getitem_colons k j 3) (\<lambda>d. bind_err (ifft d [1, 2]) (\<lambda>im.
          bind_err (rss im 0) np_flipud)) = Inr (f j)"
    and fwf: "\<And>j. j < n0 \<Longrightarrow> wf (f j) \<and> shape (f j) = [r, p]"
    and "i \<le> n0"
  shows "coil_loop ifft k [i..<n0]
           \<lparr>shape = [n0, r, p],
            data = concat (map (\<lambda>j. data (f j)) [0..<i]) @ replicate ((n0 - i) * (r * p)) 0\<rparr>
         = Inr \<lparr>shape = [n0, r, p], data = concat (map (\<lambda>j. data (f j)) [0..<n0])\<rparr>"
  using \<open>i \<le> n0\<close>
proof (induction "n0 - i" arbitrary: i)
  case 0
  then show ?case by simp
next
  case (Suc d)
  then have i: "i < n0" and d: "d = n0 - Suc i" and le: "Suc i \<le> n0" by simp_all
  let ?D = "concat (map (\<lambda>j. data (f j)) [0..<i])"
  let ?A = "\<lparr>shape = [n0, r, p], data = ?D @ replicate ((n0 - i) * (r * p)) (0::real)\<rparr>"
  have lenD: "length ?D = i * (r * p)"
  proof -
    have "\<forall>j<n0. length (data (f j)) = r * p"
      using fwf by (simp add: wf_def)
    then have "map (\<lambda>j. length (data (f j))) [0..<i] = map (\<lambda>j. r * p) [0..<i]"
      using i by (intro map_cong) simp_all
    then have "sum_list (map (\<lambda>j. length (data (f j))) [0..<i])
               = sum_list (map (\<lambda>j. r * p) [0..<i])"
      by (rule arg_cong)
    then show ?thesis
      by (simp add: length_concat o_def sum_list_triv)
  qed
  have lenf: "length (data (f i)) = r * p"
    using fwf [OF i] by (simp add: wf_def)
  have rep: "(n0 - i) * (r * p) = r * p + (n0 - Suc i) * (r * p)"
    using i by (metis Suc_diff_Suc mult_Suc)
  have asg: "np_setitem_colons ?A i 2 (f i)
      = Inr \<lparr>shape = [n0, r, p],
             data = concat (map (\<lambda>j. data (f j)) [0..<Suc i])
                    @ replicate ((n0 - Suc i) * (r * p)) 0\<rparr>"
  proof -
    have "np_setitem ?A i (f i) = Inr (?A\<lparr>data := take (i * prod_list (shape (f i))) (data ?A)
             @ data (f i) @ drop (Suc i * prod_list (shape (f i))) (data ?A)\<rparr>)"
      using fwf [OF i] i by (intro np_setitem_same_shape) simp_all
    moreover have "take (i * (r * p)) (?D @ replicate ((n0 - i) * (r * p)) (0::real)) = ?D"
      using lenD by simp
    moreover have "drop (Suc i * (r * p)) (?D @ replicate ((n0 - i) * (r * p)) (0::real))
          = replicate ((n0 - Suc i) * (r * p)) 0"
      using lenD rep by simp
    ultimately show ?thesis
      using fwf [OF i] by (simp add: np_setitem_colons_def ndim_def del: upt_Suc mult_Suc)
         (simp add: concat_upt_Suc)
  qed
  have "coil_loop ifft k [i..<n0] ?A
        = bind_err (bind_err (np_getitem_colons k i 3) (\<lambda>d. bind_err (ifft d [1, 2]) (\<lambda>im.
              bind_err (rss im 0) np_flipud)))
            (\<lambda>fl. bind_err (np_setitem_colons ?A i 2 fl) (coil_loop ifft k [Suc i..<n0]))"
    using i by (simp add: upt_conv_Cons bind_err_def split: sum.splits)
  also have "\<dots> = coil_loop ifft k [Suc i..<n0]
       \<lparr>shape = [n0, r, p],
        data = concat (map (\<lambda>j. data (f j)) [0..<Suc i])
               @ replicate ((n0 - Suc i) * (r * p)) 0\<rparr>"
    unfolding step [OF i] by (simp add: asg)
  also have "\<dots> = Inr \<lparr>shape = [n0, r, p], data = concat (map (\<lambda>j. data (f j)) [0..<n0])\<rparr>"
    using d le by (rule Suc.hyps(1))
  finally show ?case .
qed

lemma combine_spec_shape:
  "shape img = [c, r, p] \<Longrightarrow> wf (combine_spec img) \<and> shape (combine_spec img) = [r, p]"
  by (simp add: combine_spec_def wf_def)


section \<open>Facts about the pipeline\<close>

subsection \<open>Statements in sequence\<close>

lemma seq_lift: "seq (lift r) f s = (case r of Inl e \<Rightarrow> (Inl e, s) | Inr x \<Rightarrow> f x s)"
  by (simp add: seq_def lift_def split: sum.splits)

lemma seq_get: "seq (get g) f s = f (g s) s"
  by (simp add: seq_def get_def)

lemma seq_modify: "seq (modify g) f s = f () (g s)"
  by (simp add: seq_def modify_def)

lemma seq_record_call: "seq (record_call ev) f s = f () (s\<lparr>trace := trace s @ [ev]\<rparr>)"
  by (simp add: record_call_def seq_modify)

lemma seq_cases:
  obtains (raise) e where "m s = (Inl e, snd (m s))" and "seq m f s = (Inl e, snd (m s))"
  | (return) x where "m s = (Inr x, snd (m s))" and "seq m f s = f x (snd (m s))"
  by (cases "m s"; cases "fst (m s)") (auto simp: seq_def)

lemma adds_refl: "adds Q s s"
  by (simp add: adds_def)

lemma adds_trans: "adds Q s s1 \<Longrightarrow> adds Q s1 s2 \<Longrightarrow> adds Q s s2"
  by (auto simp: adds_def)

lemma adds_seq:
  assumes "adds Q s (snd (m s))" and "\<And>x. adds Q (snd (m s)) (snd (f x (snd (m s))))"
  shows "adds Q s (snd (seq m f s))"
proof (cases rule: seq_cases [of m s f])
  case (raise e)
  with assms(1) show ?thesis by simp
next
  case (return x)
  with adds_trans [OF assms(1) assms(2) [of x]] show ?thesis by simp
qed

lemma adds_lift: "adds Q s (snd (lift r s))"
  by (simp add: lift_def adds_refl)

lemma adds_get: "adds Q s (snd (get g s))"
  by (simp add: get_def adds_refl)

lemma adds_modify: "trace (g s) = trace s \<Longrightarrow> adds Q s (snd (modify g s))"
  by (simp add: modify_def adds_def)

lemma adds_record_call: "Q ev \<Longrightarrow> adds Q s (snd (record_call ev s))"
  by (simp add: record_call_def modify_def adds_def)

lemmas adds_intros = adds_seq adds_lift adds_get adds_modify adds_record_call

lemma apply_slices_adds: "adds is_apply s (snd (apply_slices ext a E d slices s))"
proof (induction slices arbitrary: s)
  case Nil
  show ?case by (simp add: adds_lift)
next
  case (Cons i slices)
  show ?case
    unfolding apply_slices.simps
    by (intro adds_intros Cons.IH) simp_all
qed

lemma apply_averages_adds: "adds is_apply s (snd (apply_averages ext trip slices s))"
proof (induction trip arbitrary: s)
  case Nil
  show ?case by (simp add: adds_lift)
next
  case (Cons t trip)
  obtain a E d where t: "t = (a, E, d)" by (cases t)
  show ?case
    unfolding t apply_averages.simps
    by (intro adds_intros Cons.IH apply_slices_adds)
qed

lemma recon_loop_adds: "adds Q s (snd (recon_loop ext hdr avs s))"
proof (induction avs arbitrary: s)
  case Nil
  show ?case by (simp add: adds_lift)
next
  case (Cons a avs)
  show ?case
    unfolding recon_loop.simps
    by (intro adds_intros Cons.IH) simp_all
qed

lemma apply_weights_phase_adds:
  "adds is_apply s (snd (apply_weights_phase ext ns A B s))"
  unfolding apply_weights_phase_def
  by (intro adds_intros apply_averages_adds) simp_all

lemma recon_phase_adds: "adds Q s (snd (recon_phase ext hdr na ns nro s))"
  unfolding recon_phase_def
  by (intro adds_intros recon_loop_adds) simp_all

subsection \<open>The trace of engine calls\<close>

lemma weights_loop_trace:
  "\<exists>evs. trace (snd (weights_loop ext A B slices s)) = trace s @ evs
        \<and> weights_post ext (length slices) (fst (weights_loop ext A B slices s)) evs"
proof (induction slices arbitrary: s)
  case Nil
  show ?case by (simp add: lift_def weights_post_def)
next
  case (Cons i slices)
  let ?c = "np_getitem (calib_data s) i"
  show ?case
  proof (cases ?c)
    case (Inl e)
    then show ?thesis
      by (simp add: seq_get seq_lift weights_post_def)
  next
    case c: (Inr cr)
    show ?thesis
    proof (cases "np_transpose cr [2, 0, 1]")
      case (Inl e)
      with c show ?thesis
        by (simp add: seq_get seq_lift weights_post_def)
    next
      case t: (Inr t)
      let ?s1 = "s\<lparr>trace := trace s @ [Call_compute_weights A t]\<rparr>"
      show ?thesis
      proof (cases "compute_weights ext A t")
        case (Inl e)
        with c t show ?thesis
          by (simp add: seq_get seq_lift seq_record_call weights_post_def)
      next
        case w: (Inr w)
        let ?s2 = "?s1\<lparr>grappa_weight_dict := (grappa_weight_dict ?s1)(i \<mapsto> w)\<rparr>"
        let ?s3 = "?s2\<lparr>trace := trace ?s2 @ [Call_compute_weights B t]\<rparr>"
        show ?thesis
        proof (cases "compute_weights ext B t")
          case (Inl e)
          with c t w show ?thesis
            by (auto simp add: seq_get seq_lift seq_record_call seq_modify weights_post_def)
        next
          case w2: (Inr w2)
          let ?s4 = "?s3\<lparr>grappa_weight_dict_2 := (grappa_weight_dict_2 ?s3)(i \<mapsto> w2)\<rparr>"
          have run: "weights_loop ext A B (i # slices) s = weights_loop ext A B slices ?s4"
            using c t w w2
            by (simp add: seq_get seq_lift seq_record_call seq_modify)
          from Cons.IH [of ?s4] obtain evs where
            tr: "trace (snd (weights_loop ext A B slices ?s4)) = trace ?s4 @ evs"
            and post: "weights_post ext (length slices) (fst (weights_loop ext A B slices ?s4)) evs"
            by blast
          have "trace (snd (weights_loop ext A B (i # slices) s))
                = trace s @ (Call_compute_weights A t # Call_compute_weights B t # evs)"
            using tr run by simp
          moreover have "weights_post ext (length (i # slices))
              (fst (weights_loop ext A B (i # slices) s))
              (Call_compute_weights A t # Call_compute_weights B t # evs)"
            using post w w2 unfolding run weights_post_def by auto
          ultimately show ?thesis by blast
        qed
      qed
    qed
  qed
qed

lemmas seq_simps = seq_get seq_lift seq_modify seq_record_call

lemma calculate_weights_form:
  "\<exists>inits s1. list_all is_init inits \<and> trace s1 = trace s @ inits \<and>
     (\<forall>t. engine_input (kspace_data s) 0 0 = Inr t \<longrightarrow>
        unpack5 (shape (kspace_data s)) \<noteq> Inl ValueError \<longrightarrow> take 1 inits = [Call_Grappa t]) \<and>
     ((\<exists>e. calculate_weights ext s = (Inl e, s1)) \<or>
      (\<exists>dims A B. unpack5 (shape (kspace_data s)) = Inr dims \<and>
         calculate_weights ext s
           = seq (weights_loop ext A B [0..<fst (snd dims)]) (\<lambda>_. lift (Inr (dims, A, B))) s1))"
proof (cases "unpack5 (shape (kspace_data s))")
  case (Inl e)
  then show ?thesis
    by (intro exI [of _ "[]"] exI [of _ s])
       (auto simp add: calculate_weights_def seq_simps unpack5_def split: list.splits)
next
  case u: (Inr dims)
  obtain na ns nc nro npe where dims: "dims = (na, ns, nc, nro, npe)"
    by (cases dims)
  let ?s0 = "s\<lparr>grappa_weight_dict := Map.empty, grappa_weight_dict_2 := Map.empty\<rparr>"
  show ?thesis
  proof (cases "engine_input (kspace_data s) 0 0")
    case (Inl e)
    then show ?thesis
      using u dims
      by (intro exI [of _ "[]"] exI [of _ ?s0])
         (auto simp add: calculate_weights_def seq_simps engine_input_def bind_err_def
             split: sum.splits)
  next
    case t: (Inr t)
    let ?s1 = "?s0\<lparr>trace := trace s @ [Call_Grappa t]\<rparr>"
    show ?thesis
    proof (cases "Grappa ext t (5, 5) 1")
      case (Inl e)
      then show ?thesis
        using u dims t
        by (intro exI [of _ "[Call_Grappa t]"] exI [of _ ?s1])
           (auto simp add: calculate_weights_def seq_simps engine_input_def bind_err_def
             split: sum.splits)
    next
      case A: (Inr A)
      show ?thesis
      proof (cases "engine_input (kspace_data s) 1 0")
        case (Inl e)
        then show ?thesis
          using u dims t A
          by (intro exI [of _ "[Call_Grappa t]"] exI [of _ ?s1])
             (auto simp add: calculate_weights_def seq_simps engine_input_def bind_err_def
             split: sum.splits)
      next
        case t2: (Inr t2)
        let ?s2 = "?s0\<lparr>trace := trace s @ [Call_Grappa t, Call_Grappa t2]\<rparr>"
        show ?thesis
        proof (cases "Grappa ext t2 (5, 5) 1")
          case (Inl e)
          then show ?thesis
            using u dims t A t2
            by (intro exI [of _ "[Call_Grappa t, Call_Grappa t2]"] exI [of _ ?s2])
               (auto simp add: calculate_weights_def seq_simps engine_input_def bind_err_def
             split: sum.splits)
        next
          case B: (Inr B)
          have "calculate_weights ext s
                = seq (weights_loop ext A B [0..<fst (snd dims)]) (\<lambda>_. lift (Inr (dims, A, B))) ?s2"
            using u dims t A t2 B
            by (auto simp add: calculate_weights_def seq_simps engine_input_def bind_err_def
             split: sum.splits)
          with u have "\<exists>dims A B. unpack5 (shape (kspace_data s)) = Inr dims \<and>
              calculate_weights ext s
                = seq (weights_loop ext A B [0..<fst (snd dims)])
                    (\<lambda>_. lift (Inr (dims, A, B))) ?s2"
            by blast
          then show ?thesis
            using t
            by (intro exI [of _ "[Call_Grappa t, Call_Grappa t2]"] exI [of _ ?s2] conjI disjI2)
               simp_all
        qed
      qed
    qed
  qed
qed

lemma calculate_weights_trace:
  "\<exists>inits evs. trace (snd (calculate_weights ext s)) = trace s @ inits @ evs
      \<and> list_all is_init inits
      \<and> (\<forall>t. engine_input (kspace_data s) 0 0 = Inr t \<longrightarrow>
            unpack5 (shape (kspace_data s)) \<noteq> Inl ValueError \<longrightarrow> take 1 inits = [Call_Grappa t])
      \<and> weights_post ext (shape (kspace_data s) ! 1) (fst (calculate_weights ext s)) evs"
proof -
  from calculate_weights_form [of s ext] obtain inits s1 where
    i: "list_all is_init inits" and tr: "trace s1 = trace s @ inits" and
    hd: "\<forall>t. engine_input (kspace_data s) 0 0 = Inr t \<longrightarrow>
        unpack5 (shape (kspace_data s)) \<noteq> Inl ValueError \<longrightarrow> take 1 inits = [Call_Grappa t]" and
    d: "(\<exists>e. calculate_weights ext s = (Inl e, s1)) \<or>
      (\<exists>dims A B. unpack5 (shape (kspace_data s)) = Inr dims \<and>
         calculate_weights ext s
           = seq (weights_loop ext A B [0..<fst (snd dims)]) (\<lambda>_. lift (Inr (dims, A, B))) s1)"
    by blast
  from d show ?thesis
  proof
    assume "\<exists>e. calculate_weights ext s = (Inl e, s1)"
    then show ?thesis
      using i tr hd by (intro exI [of _ inits] exI [of _ "[]"]) (auto simp: weights_post_def)
  next
    assume "\<exists>dims A B. unpack5 (shape (kspace_data s)) = Inr dims \<and>
         calculate_weights ext s
           = seq (weights_loop ext A B [0..<fst (snd dims)]) (\<lambda>_. lift (Inr (dims, A, B))) s1"
    then obtain dims A B where u: "unpack5 (shape (kspace_data s)) = Inr dims"
      and run: "calculate_weights ext s
           = seq (weights_loop ext A B [0..<fst (snd dims)]) (\<lambda>_. lift (Inr (dims, A, B))) s1"
      by blast
    have ns: "fst (snd dims) = shape (kspace_data s) ! 1"
      using u by (auto simp: unpack5_def split: list.splits)
    let ?w = "weights_loop ext A B [0..<fst (snd dims)] s1"
    from weights_loop_trace [of ext A B "[0..<fst (snd dims)]" s1] obtain evs where
      wtr: "trace (snd ?w) = trace s1 @ evs" and
      post: "weights_post ext (fst (snd dims)) (fst ?w) evs"
      by auto
    have "trace (snd (calculate_weights ext s)) = trace s @ inits @ evs
          \<and> weights_post ext (shape (kspace_data s) ! 1) (fst (calculate_weights ext s)) evs"
    proof (cases "fst ?w")
      case (Inl e)
      then have "calculate_weights ext s = (Inl e, snd ?w)"
        unfolding run by (cases ?w) (simp add: seq_def)
      then show ?thesis
        using wtr tr post Inl ns by (simp add: weights_post_def)
    next
      case (Inr x)
      then have "calculate_weights ext s = (Inr (dims, A, B), snd ?w)"
        unfolding run by (cases ?w) (simp add: seq_def lift_def)
      then show ?thesis
        using wtr tr post Inr ns by (simp add: weights_post_def)
    qed
    with i hd show ?thesis by blast
  qed
qed

lemma is_init_not_others: "is_init e \<Longrightarrow> \<not> is_apply e \<and> \<not> is_compute e"
  by (cases e) simp_all

lemma is_compute_not_others: "is_compute e \<Longrightarrow> \<not> is_apply e \<and> \<not> is_init e"
  by (cases e) simp_all

lemma is_apply_not_others: "is_apply e \<Longrightarrow> \<not> is_compute e \<and> \<not> is_init e"
  by (cases e) simp_all

lemma dropWhile_all_apply:
  "list_all is_apply aps \<Longrightarrow> dropWhile (\<lambda>e. \<not> is_apply e) aps = aps"
  by (cases aps) simp_all

lemma filter_compute_inits: "list_all is_init xs \<Longrightarrow> filter is_compute xs = []"
  by (induction xs) (auto dest: is_init_not_others)

lemma filter_compute_applies: "list_all is_apply xs \<Longrightarrow> filter is_compute xs = []"
  by (induction xs) (auto dest: is_apply_not_others)

lemma filter_compute_computes: "list_all is_compute xs \<Longrightarrow> filter is_compute xs = xs"
  by (induction xs) auto

lemma no_apply_before:
  assumes "list_all is_init inits" and "list_all is_compute evs" and "x \<in> set (inits @ evs)"
  shows "\<not> is_apply x"
  using assms is_init_not_others [of x] is_compute_not_others [of x]
  by (auto simp: list_all_iff)

lemma phased_trace_ordered:
  assumes "list_all is_init inits" and "list_all is_compute evs" and "list_all is_apply aps"
  shows "computes_before_applies (inits @ evs @ aps)"
proof -
  have "dropWhile (\<lambda>e. \<not> is_apply e) ((inits @ evs) @ aps) = dropWhile (\<lambda>e. \<not> is_apply e) aps"
    using no_apply_before [OF assms(1,2)] by (rule dropWhile_append2)
  then show ?thesis
    using assms(3) by (simp add: computes_before_applies_def dropWhile_all_apply)
qed

lemma phased_trace_computes:
  assumes "list_all is_init inits" and "list_all is_compute evs" and "list_all is_apply aps"
  shows "filter is_compute (inits @ evs @ aps) = evs"
  using assms by (simp add: filter_compute_inits filter_compute_applies filter_compute_computes)

lemma phased_trace_has_apply:
  assumes "list_all is_init inits" and "list_all is_compute evs" and "list_all is_apply aps"
  shows "has_apply (inits @ evs @ aps) \<longleftrightarrow> aps \<noteq> []"
proof (cases aps)
  case Nil
  then show ?thesis
    using no_apply_before [OF assms(1,2)] by (auto simp: has_apply_def list_ex_iff)
next
  case (Cons a as)
  then show ?thesis
    using assms(3) by (auto simp: has_apply_def list_ex_iff)
qed

lemma phased_trace_compute_mem:
  assumes "list_all is_init inits" and "list_all is_apply aps"
    and "Call_compute_weights E t \<in> set (inits @ evs @ aps)"
  shows "Call_compute_weights E t \<in> set evs"
  using assms by (auto simp: list_all_iff)

lemma after_weights_adds:
  "adds is_apply s (snd (seq (apply_weights_phase ext ns A B)
                              (\<lambda>_. recon_phase ext hdr na ns nro) s))"
  by (intro adds_seq apply_weights_phase_adds recon_phase_adds)

lemma seq_assoc: "seq (seq m f) g = seq m (\<lambda>x. seq (f x) g)"
  by (rule ext) (auto simp: seq_def split: prod.splits sum.splits)

lemmas array_defs = np_getitem2_def np_getitem_def np_getitem_colons_def np_transpose_def
  np_moveaxis_def np_setitem_def np_setitem2_def np_setitem_colons_def broadcast_to_def
  broadcastable_def np_zeros_def np_flipud_def np_mean_def np_sum_def sum_axis0_def
  normalize_axis_def np_abs_def np_square_def np_sqrt_def rss_def shape_at_def ndim_def
  unpack5_def lookup_def

lemmas pipeline_defs = t2_reconstruction_def t2_body_def calculate_weights_def
  apply_weights_phase_def recon_phase_def create_coil_combined_im_def init_state_def
  seq_simps seq_assoc lift_def

lemma run_failing_calibration:
  "t2_reconstruction failing_calibration kspace_3_1_1_1_1 calib_1_1_1_1 []
   = (Inl (External ''CalibrationInsufficientError''),
      (init_state kspace_3_1_1_1_1 calib_1_1_1_1)
        \<lparr>trace := [Call_Grappa \<lparr>shape = [1, 1, 1], data = [0]\<rparr>,
                   Call_Grappa \<lparr>shape = [1, 1, 1], data = [1]\<rparr>,
                   Call_compute_weights \<lparr>shape = [1, 1, 1], data = [0]\<rparr>
                     \<lparr>shape = [1, 1, 1], data = [1]\<rparr>]\<rparr>)"
  by (simp add: pipeline_defs array_defs failing_calibration_def passthrough_def
      kspace_3_1_1_1_1_def calib_1_1_1_1_def)

lemma run_passthrough:
  "t2_reconstruction passthrough kspace_3_1_1_1_1 calib_1_1_1_1 []
   = (Inr [(''reconstruction_rss'', \<lparr>shape = [1, 1, 1], data = [1 / 3]\<rparr>)],
      \<lparr>kspace_data = kspace_3_1_1_1_1, calib_data = calib_1_1_1_1,
       grappa_weight_dict =
         [0 \<mapsto> (\<lparr>shape = [1, 1, 1], data = [0]\<rparr>, \<lparr>shape = [1, 1, 1], data = [1]\<rparr>)],
       grappa_weight_dict_2 =
         [0 \<mapsto> (\<lparr>shape = [1, 1, 1], data = [1]\<rparr>, \<lparr>shape = [1, 1, 1], data = [1]\<rparr>)],
       kspace_post_grappa_all = \<lparr>shape = [3, 1, 1, 1, 1], data = [0, 1, 0]\<rparr>,
       im = \<lparr>shape = [3, 1, 1, 1], data = [0, 1, 0]\<rparr>,
       trace = [Call_Grappa \<lparr>shape = [1, 1, 1], data = [0]\<rparr>,
                Call_Grappa \<lparr>shape = [1, 1, 1], data = [1]\<rparr>,
                Call_compute_weights \<lparr>shape = [1, 1, 1], data = [0]\<rparr>
                  \<lparr>shape = [1, 1, 1], data = [1]\<rparr>,
                Call_compute_weights \<lparr>shape = [1, 1, 1], data = [1]\<rparr>
                  \<lparr>shape = [1, 1, 1], data = [1]\<rparr>,
                Call_apply_weights \<lparr>shape = [1, 1, 1], data = [0]\<rparr>
                  \<lparr>shape = [1, 1, 1], data = [0]\<rparr>
                  (\<lparr>shape = [1, 1, 1], data = [0]\<rparr>, \<lparr>shape = [1, 1, 1], data = [1]\<rparr>),
                Call_apply_weights \<lparr>shape = [1, 1, 1], data = [1]\<rparr>
                  \<lparr>shape = [1, 1, 1], data = [1]\<rparr>
                  (\<lparr>shape = [1, 1, 1], data = [1]\<rparr>, \<lparr>shape = [1, 1, 1], data = [1]\<rparr>),
                Call_apply_weights \<lparr>shape = [1, 1, 1], data = [0]\<rparr>
                  \<lparr>shape = [1, 1, 1], data = [0]\<rparr>
                  (\<lparr>shape = [1, 1, 1], data = [0]\<rparr>, \<lparr>shape = [1, 1, 1], data = [1]\<rparr>)]\<rparr>)"
  by (simp add: pipeline_defs array_defs passthrough_def kspace_3_1_1_1_1_def calib_1_1_1_1_def
      upt_rec)

subsection \<open>Runs that return: the weights and the calls that apply them\<close>

lemma seq_Inr_iff:
  "seq m f s = (Inr y, s') \<longleftrightarrow> (\<exists>x s1. m s = (Inr x, s1) \<and> f x s1 = (Inr y, s'))"
  by (auto simp: seq_def split: prod.splits sum.splits)

lemma weights_loop_other_keys:
  "i \<notin> set slices \<Longrightarrow>
   grappa_weight_dict (snd (weights_loop ext A B slices s)) i = grappa_weight_dict s i \<and>
   grappa_weight_dict_2 (snd (weights_loop ext A B slices s)) i = grappa_weight_dict_2 s i"
proof (induction slices arbitrary: s)
  case Nil
  then show ?case by (simp add: lift_def)
next
  case (Cons j slices)
  then have ij: "i \<noteq> j" and IH: "\<And>s. grappa_weight_dict (snd (weights_loop ext A B slices s)) i = grappa_weight_dict s i \<and>
   grappa_weight_dict_2 (snd (weights_loop ext A B slices s)) i = grappa_weight_dict_2 s i"
    by auto
  show ?case
    using ij by (simp add: seq_simps IH split: sum.splits)
qed

lemma weights_loop_inputs:
  "kspace_data (snd (weights_loop ext A B slices s)) = kspace_data s \<and>
   calib_data (snd (weights_loop ext A B slices s)) = calib_data s"
proof (induction slices arbitrary: s)
  case Nil
  then show ?case by (simp add: lift_def)
next
  case (Cons j slices)
  show ?case
    by (simp add: seq_simps Cons.IH split: sum.splits)
qed

lemma weights_loop_success:
  assumes "weights_loop ext A B slices s = (Inr u, s')" and "i \<in> set slices"
  shows "slice_weights ext (calib_data s) A i = lookup (grappa_weight_dict s') i \<and>
         slice_weights ext (calib_data s) B i = lookup (grappa_weight_dict_2 s') i \<and>
         (\<exists>w. grappa_weight_dict s' i = Some w) \<and> (\<exists>w. grappa_weight_dict_2 s' i = Some w)"
  using assms
proof (induction slices arbitrary: s)
  case Nil
  then show ?case by simp
next
  case (Cons j slices)
  from Cons.prems(1) obtain cr t w w2 where
    cr: "np_getitem (calib_data s) j = Inr cr" and t: "np_transpose cr [2, 0, 1] = Inr t"
    and w: "compute_weights ext A t = Inr w" and w2: "compute_weights ext B t = Inr w2"
    and rest: "weights_loop ext A B slices
        (s\<lparr>trace := trace s @ [Call_compute_weights A t],
           grappa_weight_dict := (grappa_weight_dict s)(j \<mapsto> w),
           trace := trace s @ [Call_compute_weights A t, Call_compute_weights B t],
           grappa_weight_dict_2 := (grappa_weight_dict_2 s)(j \<mapsto> w2)\<rparr>) = (Inr u, s')"
    by (auto simp: seq_simps split: sum.splits)
  let ?s4 = "s\<lparr>trace := trace s @ [Call_compute_weights A t],
           grappa_weight_dict := (grappa_weight_dict s)(j \<mapsto> w),
           trace := trace s @ [Call_compute_weights A t, Call_compute_weights B t],
           grappa_weight_dict_2 := (grappa_weight_dict_2 s)(j \<mapsto> w2)\<rparr>"
  show ?case
  proof (cases "i \<in> set slices")
    case True
    from Cons.IH [OF rest True] show ?thesis by simp
  next
    case False
    with Cons.prems(2) have "i = j" by simp
    moreover have "grappa_weight_dict s' i = grappa_weight_dict ?s4 i"
      "grappa_weight_dict_2 s' i = grappa_weight_dict_2 ?s4 i"
      using weights_loop_other_keys [OF False, of ext A B ?s4] rest by simp_all
    ultimately show ?thesis
      using cr t w w2 by (simp add: slice_weights_def calib_input_def lookup_def)
  qed
qed

subsection \<open>The caller's arrays\<close>

lemma same_inputs_refl: "same_inputs s s"
  by (simp add: same_inputs_def)

lemma same_inputs_trans: "same_inputs s s1 \<Longrightarrow> same_inputs s1 s2 \<Longrightarrow> same_inputs s s2"
  by (simp add: same_inputs_def)

lemma same_inputs_seq:
  assumes "same_inputs s (snd (m s))"
    and "\<And>x. same_inputs (snd (m s)) (snd (f x (snd (m s))))"
  shows "same_inputs s (snd (seq m f s))"
proof (cases rule: seq_cases [of m s f])
  case (raise e)
  with assms(1) show ?thesis by simp
next
  case (return x)
  with same_inputs_trans [OF assms(1) assms(2) [of x]] show ?thesis by simp
qed

lemma same_inputs_lift: "same_inputs s (snd (lift r s))"
  by (simp add: lift_def same_inputs_refl)

lemma same_inputs_get: "same_inputs s (snd (get g s))"
  by (simp add: get_def same_inputs_refl)

lemma same_inputs_modify:
  "kspace_data (g s) = kspace_data s \<Longrightarrow> calib_data (g s) = calib_data s
     \<Longrightarrow> same_inputs s (snd (modify g s))"
  by (simp add: modify_def same_inputs_def)

lemma same_inputs_record_call: "same_inputs s (snd (record_call ev s))"
  by (simp add: record_call_def modify_def same_inputs_def)

lemmas same_inputs_intros = same_inputs_seq same_inputs_lift same_inputs_get
  same_inputs_modify same_inputs_record_call

lemma weights_loop_same_inputs: "same_inputs s (snd (weights_loop ext A B slices s))"
  by (simp add: same_inputs_def weights_loop_inputs)

lemma apply_slices_same_inputs: "same_inputs s (snd (apply_slices ext a E d slices s))"
proof (induction slices arbitrary: s)
  case Nil
  show ?case by (simp add: same_inputs_lift)
next
  case (Cons i slices)
  show ?case
    unfolding apply_slices.simps
    by (intro same_inputs_intros Cons.IH) simp_all
qed



lemma calculate_weights_same_inputs: "same_inputs s (snd (calculate_weights ext s))"
  unfolding calculate_weights_def
  by (intro same_inputs_intros weights_loop_same_inputs
      same_inputs_seq [where m = "lift (unpack5 _)"]) (simp_all split: prod.splits add: same_inputs_intros weights_loop_same_inputs)




lemma apply_slices_success:
  assumes "apply_slices ext a E d slices s = (Inr u, s')"
  shows "\<exists>evs. trace s' = trace s @ evs \<and> map Inr evs = map (slice_apply (kspace_data s) a E d) slices"
  using assms
proof (induction slices arbitrary: s)
  case Nil
  then show ?case by (simp add: lift_def)
next
  case (Cons i slices)
  from Cons.prems obtain t w buf where
    t: "engine_input (kspace_data s) a i = Inr t" and w: "lookup d i = Inr w"
    and rest0: "apply_slices ext a E d slices
        (s\<lparr>trace := trace s @ [Call_apply_weights E t w], kspace_post_grappa_all := buf\<rparr>)
        = (Inr u, s')"
    by (auto simp: seq_simps engine_input_def bind_err_def split: sum.splits)
  define s1 where "s1 = s\<lparr>trace := trace s @ [Call_apply_weights E t w],
    kspace_post_grappa_all := buf\<rparr>"
  have s1: "kspace_data s1 = kspace_data s" "trace s1 = trace s @ [Call_apply_weights E t w]"
    and rest: "apply_slices ext a E d slices s1 = (Inr u, s')"
    using rest0 by (simp_all add: s1_def)
  from Cons.IH [OF rest] obtain evs where
    "trace s' = trace s1 @ evs" "map Inr evs = map (slice_apply (kspace_data s1) a E d) slices"
    by blast
  then have "trace s' = trace s @ (Call_apply_weights E t w # evs)"
    and "map Inr (Call_apply_weights E t w # evs) = map (slice_apply (kspace_data s) a E d) (i # slices)"
    using s1 t w by (simp_all add: slice_apply_def)
  then show ?case by blast
qed

lemma apply_averages_success:
  assumes "apply_averages ext trip slices s = (Inr u, s')"
  shows "\<exists>evs. trace s' = trace s @ evs \<and>
     map Inr evs = concat (map (\<lambda>(a, E, d). map (slice_apply (kspace_data s) a E d) slices) trip)"
  using assms
proof (induction trip arbitrary: s)
  case Nil
  then show ?case by (simp add: lift_def)
next
  case (Cons x trip)
  obtain a E d where x: "x = (a, E, d)" by (cases x)
  from Cons.prems obtain s1 where
    first: "apply_slices ext a E d slices s = (Inr (), s1)"
    and rest: "apply_averages ext trip slices s1 = (Inr u, s')"
    unfolding x by (auto simp: seq_Inr_iff)
  from apply_slices_success [OF first] obtain evs1 where
    e1: "trace s1 = trace s @ evs1" "map Inr evs1 = map (slice_apply (kspace_data s) a E d) slices"
    by blast
  have k: "kspace_data s1 = kspace_data s"
    using apply_slices_same_inputs [of s ext a E d slices] first by (simp add: same_inputs_def)
  from Cons.IH [OF rest] obtain evs2 where
    e2: "trace s' = trace s1 @ evs2"
    "map Inr evs2 = concat (map (\<lambda>(a, E, d). map (slice_apply (kspace_data s1) a E d) slices) trip)"
    by blast
  have "trace s' = trace s @ (evs1 @ evs2)"
    using e1 e2 by simp
  moreover have "map Inr (evs1 @ evs2)
     = concat (map (\<lambda>(a, E, d). map (slice_apply (kspace_data s) a E d) slices) (x # trip))"
    using e1 e2 k x by simp
  ultimately show ?case by blast
qed

lemma calculate_weights_success:
  assumes "calculate_weights ext s = (Inr (dims, A, B), s1)"
  shows "unpack5 (shape (kspace_data s)) = Inr dims"
    and "bind_err (engine_input (kspace_data s) 0 0) (\<lambda>t. Grappa ext t (5, 5) 1) = Inr A"
    and "bind_err (engine_input (kspace_data s) 1 0) (\<lambda>t. Grappa ext t (5, 5) 1) = Inr B"
    and "\<exists>s0. weights_loop ext A B [0..<fst (snd dims)] s0 = (Inr (), s1)
              \<and> calib_data s0 = calib_data s"
  using assms
  unfolding calculate_weights_def
  by (auto simp: seq_simps seq_Inr_iff lift_def engine_input_def split: sum.splits prod.splits)

lemma filter_apply_before:
  assumes "list_all is_init inits" and "list_all is_compute evs"
  shows "filter is_apply (inits @ evs) = []"
  using no_apply_before [OF assms] by (simp add: filter_empty_conv)

lemma filter_apply_all: "list_all is_apply xs \<Longrightarrow> filter is_apply xs = xs"
  by (induction xs) auto

lemma returning_run_applies:
  assumes "fst (t2_reconstruction ext k c hdr) = Inr out"
  shows "\<exists>A B.
     bind_err (engine_input k 0 0) (\<lambda>t. Grappa ext t (5, 5) 1) = Inr A \<and>
     bind_err (engine_input k 1 0) (\<lambda>t. Grappa ext t (5, 5) 1) = Inr B \<and>
     map Inr (filter is_apply (trace (snd (t2_reconstruction ext k c hdr))))
       = map (expected_apply ext k c 0 A) [0..<shape k ! 1]
         @ map (expected_apply ext k c 1 B) [0..<shape k ! 1]
         @ map (expected_apply ext k c 2 A) [0..<shape k ! 1]"
proof -
  let ?s0 = "init_state k c :: ('a, 'b) state"
  obtain s3 where run: "t2_body ext hdr ?s0 = (Inr out, s3)"
    using assms by (cases "t2_body ext hdr ?s0") (simp add: t2_reconstruction_def)
  then obtain na ns nc nro npe A B s1 s2 where
    cw: "calculate_weights ext ?s0 = (Inr ((na, ns, nc, nro, npe), A, B), s1)"
    and ap: "apply_weights_phase ext ns A B s1 = (Inr (), s2)"
    and rc: "recon_phase ext hdr na ns nro s2 = (Inr out, s3)"
    unfolding t2_body_def by (auto simp: seq_Inr_iff)
  note cws = calculate_weights_success [OF cw]
  have k0: "kspace_data ?s0 = k" "calib_data ?s0 = c" "trace ?s0 = []"
    by (simp_all add: init_state_def)
  have ns: "ns = shape k ! 1"
    using cws(1) by (auto simp: k0 unpack5_def split: list.splits)
  from cws(4) obtain s0' where
    wl: "weights_loop ext A B [0..<ns] s0' = (Inr (), s1)" and c0: "calib_data s0' = c"
    by (auto simp: k0)
  have k1: "kspace_data s1 = k"
    using calculate_weights_same_inputs [of ?s0 ext] cw by (simp add: same_inputs_def k0)
  \<comment> \<open>the trace before the application phase has no application\<close>
  from calculate_weights_trace [of ext ?s0] obtain inits evs where
    "trace s1 = inits @ evs" "list_all is_init inits" "list_all is_compute evs"
    using cw by (auto simp: k0 weights_post_def)
  then have t1: "filter is_apply (trace s1) = []"
    by (simp add: filter_apply_before del: filter_append)
  \<comment> \<open>the application phase\<close>
  let ?d = "grappa_weight_dict s1" and ?d2 = "grappa_weight_dict_2 s1"
  let ?s1 = "s1\<lparr>kspace_post_grappa_all := np_zeros (shape k)\<rparr>"
  have "apply_averages ext [(0, A, ?d), (1, B, ?d2), (2, A, ?d)] [0..<ns] ?s1 = (Inr (), s2)"
    using ap by (simp add: apply_weights_phase_def seq_simps k1)
  from apply_averages_success [OF this] obtain aps where
    t2: "trace s2 = trace s1 @ aps" and
    aps: "map Inr aps = map (slice_apply k 0 A ?d) [0..<ns] @ map (slice_apply k 1 B ?d2) [0..<ns]
            @ map (slice_apply k 2 A ?d) [0..<ns]"
    by (auto simp: k1)
  have "adds is_apply s1 (snd (apply_weights_phase ext ns A B s1))"
    by (rule apply_weights_phase_adds)
  then have all: "list_all is_apply aps"
    using ap t2 by (auto simp: adds_def)
  have same: "slice_apply k a A ?d i = expected_apply ext k c a A i"
    "slice_apply k a B ?d2 i = expected_apply ext k c a B i" if "i < ns" for a i
    using weights_loop_success [OF wl, of i] that
    by (simp_all add: slice_apply_def expected_apply_def c0)
  have maps: "map (slice_apply k a A ?d) [0..<ns] = map (expected_apply ext k c a A) [0..<ns]"
    "map (slice_apply k a B ?d2) [0..<ns] = map (expected_apply ext k c a B) [0..<ns]" for a
    using same by simp_all
  \<comment> \<open>the reconstruction phase makes no engine call\<close>
  have "adds (\<lambda>_. False) s2 (snd (recon_phase ext hdr na ns nro s2))"
    by (rule recon_phase_adds)
  then have t3: "trace s3 = trace s2"
    using rc by (auto simp: adds_def list_all_iff)
  have "filter is_apply (trace s3) = aps"
    using t1 t2 t3 all by (simp add: filter_apply_all)
  then have "map Inr (filter is_apply (trace (snd (t2_reconstruction ext k c hdr))))
       = map (expected_apply ext k c 0 A) [0..<shape k ! 1]
         @ map (expected_apply ext k c 1 B) [0..<shape k ! 1]
         @ map (expected_apply ext k c 2 A) [0..<shape k ! 1]"
    using run aps maps ns by (simp add: t2_reconstruction_def)
  with cws(2,3) show ?thesis
    unfolding k0 by blast
qed

lemma run_trace_phases:
  "\<exists>inits evs aps. trace (snd (t2_reconstruction ext k c hdr)) = inits @ evs @ aps
     \<and> list_all is_init inits \<and> list_all is_compute evs \<and> list_all is_apply aps
     \<and> (\<forall>t. engine_input k 0 0 = Inr t \<longrightarrow> unpack5 (shape k) \<noteq> Inl ValueError
            \<longrightarrow> take 1 inits = [Call_Grappa t])"
proof -
  let ?s0 = "init_state k c :: ('a, 'b) state"
  let ?cw = "calculate_weights ext ?s0"
  from calculate_weights_trace [of ext ?s0] obtain inits evs where
    tr: "trace (snd ?cw) = inits @ evs" and i: "list_all is_init inits"
    and hd: "\<forall>t. engine_input k 0 0 = Inr t \<longrightarrow> unpack5 (shape k) \<noteq> Inl ValueError
            \<longrightarrow> take 1 inits = [Call_Grappa t]"
    and post: "weights_post ext (shape k ! 1) (fst ?cw) evs"
    by (auto simp: init_state_def)
  from post have c: "list_all is_compute evs" by (simp add: weights_post_def)
  have "\<exists>aps. trace (snd (t2_reconstruction ext k c hdr)) = inits @ evs @ aps
     \<and> list_all is_apply aps"
  proof (cases "fst ?cw")
    case (Inl e)
    then have "t2_reconstruction ext k c hdr = (Inl e, snd ?cw)"
      by (cases ?cw) (simp add: t2_reconstruction_def t2_body_def seq_def)
    then show ?thesis using tr by simp
  next
    case (Inr x)
    obtain na ns nc nro npe A B where x: "x = ((na, ns, nc, nro, npe), A, B)"
      by (cases x) auto
    let ?rest = "seq (apply_weights_phase ext ns A B) (\<lambda>_. recon_phase ext hdr na ns nro)"
    have run: "t2_reconstruction ext k c hdr = ?rest (snd ?cw)"
      using Inr x by (cases ?cw) (simp add: t2_reconstruction_def t2_body_def seq_def)
    from after_weights_adds [of "snd ?cw" ext ns A B hdr na nro] obtain aps where
      "trace (snd (?rest (snd ?cw))) = trace (snd ?cw) @ aps" "list_all is_apply aps"
      by (auto simp: adds_def)
    then show ?thesis using run tr by simp
  qed
  with i c hd show ?thesis by blast
qed

lemma engine_input_in_range:
  assumes "shape k = [na, ns, nc, nro, npe]" and "a < na" and "i < ns"
  shows "\<exists>t. engine_input k a i = Inr t"
  using assms
  by (simp add: engine_input_def np_getitem2_def np_getitem_def np_transpose_def ndim_def Let_def)

lemma engine_input_out_of_range:
  assumes "shape k = [na, ns, nc, nro, npe]" and "na \<le> a"
  shows "engine_input k a i = Inl IndexError"
  using assms
  by (simp add: engine_input_def np_getitem2_def np_getitem_def)

lemma map_Inr_eq_append3D:
  assumes "map Inr xs = map f as @ map g bs @ map h cs" and "c \<in> set cs"
  shows "\<exists>x. h c = Inr x"
proof -
  have "h c \<in> set (map Inr xs)"
    using assms by simp
  then show ?thesis by auto
qed

lemma run_two_averages:
  "t2_reconstruction passthrough kspace_2_1_1_1_1 calib_1_1_1_1 []
   = (Inl IndexError,
      \<lparr>kspace_data = kspace_2_1_1_1_1, calib_data = calib_1_1_1_1,
       grappa_weight_dict =
         [0 \<mapsto> (\<lparr>shape = [1, 1, 1], data = [0]\<rparr>, \<lparr>shape = [1, 1, 1], data = [1]\<rparr>)],
       grappa_weight_dict_2 =
         [0 \<mapsto> (\<lparr>shape = [1, 1, 1], data = [1]\<rparr>, \<lparr>shape = [1, 1, 1], data = [1]\<rparr>)],
       kspace_post_grappa_all = \<lparr>shape = [2, 1, 1, 1, 1], data = [0, 1]\<rparr>,
       im = \<lparr>shape = [0], data = []\<rparr>,
       trace = [Call_Grappa \<lparr>shape = [1, 1, 1], data = [0]\<rparr>,
                Call_Grappa \<lparr>shape = [1, 1, 1], data = [1]\<rparr>,
                Call_compute_weights \<lparr>shape = [1, 1, 1], data = [0]\<rparr>
                  \<lparr>shape = [1, 1, 1], data = [1]\<rparr>,
                Call_compute_weights \<lparr>shape = [1, 1, 1], data = [1]\<rparr>
                  \<lparr>shape = [1, 1, 1], data = [1]\<rparr>,
                Call_apply_weights \<lparr>shape = [1, 1, 1], data = [0]\<rparr>
                  \<lparr>shape = [1, 1, 1], data = [0]\<rparr>
                  (\<lparr>shape = [1, 1, 1], data = [0]\<rparr>, \<lparr>shape = [1, 1, 1], data = [1]\<rparr>),
                Call_apply_weights \<lparr>shape = [1, 1, 1], data = [1]\<rparr>
                  \<lparr>shape = [1, 1, 1], data = [1]\<rparr>
                  (\<lparr>shape = [1, 1, 1], data = [1]\<rparr>, \<lparr>shape = [1, 1, 1], data = [1]\<rparr>)]\<rparr>)"
  by (simp add: pipeline_defs array_defs passthrough_def kspace_2_1_1_1_1_def calib_1_1_1_1_def
      upt_rec)

subsection \<open>Shapes and contents of transposed, indexed and assigned arrays\<close>

lemma ravel_bound: "list_all2 (<) idx s \<Longrightarrow> ravel s idx < prod_list s"
proof (induction idx s rule: list_all2_induct)
  case Nil
  then show ?case by simp
next
  case (Cons i idx d s)
  have "i * prod_list s + ravel s idx < i * prod_list s + prod_list s"
    using Cons.IH by simp
  also have "\<dots> = Suc i * prod_list s" by simp
  also have "\<dots> \<le> d * prod_list s"
    using Cons.hyps(1) by (intro mult_le_mono1) simp
  finally show ?case by simp
qed

lemma index_of_nth:
  "x \<in> set ys \<Longrightarrow> index_of x ys < length ys \<and> ys ! index_of x ys = x"
  by (induction ys) auto

lemma permutation_axes:
  assumes "sort axes = [0..<nd]" and "d < nd"
  shows "length axes = nd" and "index_of d axes < nd" and "axes ! index_of d axes = d"
proof -
  have "length (sort axes) = nd" using assms(1) by simp
  then show len: "length axes = nd" by simp
  have "set (sort axes) = {0..<nd}" using assms(1) by simp
  then have "d \<in> set axes" using assms(2) by simp
  from index_of_nth [OF this] len
  show "index_of d axes < nd" and "axes ! index_of d axes = d" by simp_all
qed

lemma np_transpose_source_in_range:
  assumes "sort axes = [0..<length s]" and "n < prod_list (map (\<lambda>k. s ! k) axes)"
  shows "ravel s (map (\<lambda>d. unravel (map (\<lambda>k. s ! k) axes) n ! index_of d axes) [0..<length s])
         < prod_list s"
proof (rule ravel_bound)
  let ?s' = "map (\<lambda>k. s ! k) axes"
  have b: "list_all2 (<) (unravel ?s' n) ?s'"
    using assms(2) by (rule unravel_bound)
  show "list_all2 (<) (map (\<lambda>d. unravel ?s' n ! index_of d axes) [0..<length s]) s"
  proof (rule list_all2_all_nthI)
    show "length (map (\<lambda>d. unravel ?s' n ! index_of d axes) [0..<length s]) = length s"
      by simp
  next
    fix d
    assume "d < length (map (\<lambda>d. unravel ?s' n ! index_of d axes) [0..<length s])"
    then have d: "d < length s" by simp
    note p = permutation_axes [OF assms(1) d]
    have "\<forall>i<length ?s'. unravel ?s' n ! i < ?s' ! i"
      using b by (simp add: list_all2_conv_all_nth)
    moreover have "index_of d axes < length ?s'"
      using p by simp
    ultimately have "unravel ?s' n ! index_of d axes < ?s' ! index_of d axes"
      by blast
    also have "?s' ! index_of d axes = s ! d"
      using p by simp
    finally show "map (\<lambda>d. unravel ?s' n ! index_of d axes) [0..<length s] ! d < s ! d"
      using d by simp
  qed
qed

lemma np_transpose_result:
  assumes "np_transpose a axes = Inr b"
  shows "shape b = map (\<lambda>k. shape a ! k) axes" and "wf b"
    and "wf a \<Longrightarrow> set (data b) \<subseteq> set (data a)"
proof -
  from assms have perm: "sort axes = [0..<length (shape a)]"
    and b: "b = \<lparr>shape = map (\<lambda>k. shape a ! k) axes,
             data = map (\<lambda>n. data a ! ravel (shape a)
                 (map (\<lambda>d. unravel (map (\<lambda>k. shape a ! k) axes) n ! index_of d axes)
                    [0..<length (shape a)]))
               [0..<prod_list (map (\<lambda>k. shape a ! k) axes)]\<rparr>"
    by (auto simp: np_transpose_def ndim_def Let_def split: if_splits)
  show "shape b = map (\<lambda>k. shape a ! k) axes" and "wf b"
    by (simp_all add: b wf_def)
  show "set (data b) \<subseteq> set (data a)" if "wf a"
  proof
    fix x assume "x \<in> set (data b)"
    then obtain n where n: "n < prod_list (map (\<lambda>k. shape a ! k) axes)"
      and x: "x = data a ! ravel (shape a)
                 (map (\<lambda>d. unravel (map (\<lambda>k. shape a ! k) axes) n ! index_of d axes)
                    [0..<length (shape a)])"
      by (auto simp: b)
    from np_transpose_source_in_range [OF perm n] that
    show "x \<in> set (data a)"
      unfolding x by (simp add: wf_def)
  qed
qed

lemma np_moveaxis_result:
  assumes "np_moveaxis a src dst = Inr b"
  shows "wf b" and "wf a \<Longrightarrow> set (data b) \<subseteq> set (data a)"
proof -
  from assms obtain axes where "np_transpose a axes = Inr b"
    by (auto simp: np_moveaxis_def Let_def split: if_splits)
  from np_transpose_result [OF this] show "wf b" and "wf a \<Longrightarrow> set (data b) \<subseteq> set (data a)"
    by simp_all
qed

lemma np_transpose_201:
  assumes "shape a = [c, r, p]"
  shows "\<exists>b. np_transpose a [2, 0, 1] = Inr b \<and> shape b = [p, c, r] \<and> wf b"
proof -
  have "sort [2, 0, 1] = [0..<ndim a]"
    using assms by (simp add: ndim_def upt_rec)
  then obtain b where b: "np_transpose a [2, 0, 1] = Inr b"
    by (simp add: np_transpose_def Let_def)
  from np_transpose_result(1,2) [OF b] assms b show ?thesis by simp
qed

lemma np_moveaxis_back:
  assumes "shape a = [p, c, r]"
  shows "\<exists>b. bind_err (np_moveaxis a 0 1) (\<lambda>x. np_moveaxis x 1 2) = Inr b
             \<and> shape b = [c, r, p] \<and> wf b"
proof -
  have s1: "sort [1, 0, 2] = [0..<3]" and s2: "sort [0, 2, 1] = [0..<3]"
    by (simp_all add: upt_rec)
  have m1: "np_moveaxis a 0 1 = np_transpose a [1, 0, 2]"
    using assms by (simp add: np_moveaxis_def ndim_def upt_rec numeral_2_eq_2)
  obtain x where x: "np_transpose a [1, 0, 2] = Inr x"
    using assms s1 by (simp add: np_transpose_def ndim_def Let_def)
  from np_transpose_result(1) [OF x] assms have sx: "shape x = [c, p, r]" by simp
  have m2: "np_moveaxis x 1 2 = np_transpose x [0, 2, 1]"
    using sx by (simp add: np_moveaxis_def ndim_def upt_rec numeral_2_eq_2)
  obtain b where b: "np_transpose x [0, 2, 1] = Inr b"
    using sx s2 by (simp add: np_transpose_def ndim_def Let_def)
  from np_transpose_result(1,2) [OF b] sx have "shape b = [c, r, p]" "wf b" by simp_all
  then show ?thesis using m1 x m2 b by simp
qed

lemma chunk_le: "i < n \<Longrightarrow> Suc i * m \<le> n * (m::nat)"
  by (intro mult_le_mono1) simp

lemma length_chunk:
  assumes "i < n" and "length xs = n * m"
  shows "length (take m (drop (i * m) xs)) = m"
  using chunk_le [OF assms(1), of m] assms(2) by simp

lemma length_replace_chunk:
  assumes "i < n" and "length xs = n * m" and "length d = m"
  shows "length (take (i * m) xs @ d @ drop (Suc i * m) xs) = n * m"
  using chunk_le [OF assms(1), of m] assms(2,3) by simp

lemma set_replace_chunk:
  "set (take k xs @ d @ drop l xs) \<subseteq> set xs \<union> set d"
  using set_take_subset [of k xs] set_drop_subset [of l xs] by auto

lemma np_getitem_ok:
  assumes "shape a = n # rest" and "i < n"
  shows "\<exists>b. np_getitem a i = Inr b \<and> shape b = rest \<and> (wf a \<longrightarrow> wf b)
            \<and> set (data b) \<subseteq> set (data a)"
proof -
  let ?b = "\<lparr>shape = rest, data = take (prod_list rest) (drop (i * prod_list rest) (data a))\<rparr>"
  have "np_getitem a i = Inr ?b"
    using assms by (simp add: np_getitem_def Let_def)
  moreover have "wf ?b" if "wf a"
    using that assms length_chunk [OF assms(2), of "data a" "prod_list rest"]
    by (simp add: wf_def)
  moreover have "set (data ?b) \<subseteq> set (data a)"
    using set_take_subset set_drop_subset by fastforce
  ultimately show ?thesis by auto
qed

lemma np_getitem_out_of_range:
  assumes "shape a = n # rest" and "n \<le> i"
  shows "np_getitem a i = Inl IndexError"
  using assms by (simp add: np_getitem_def)

lemma np_getitem2_ok:
  assumes "shape a = n0 # n1 # rest" and "i < n0" and "j < n1"
  shows "\<exists>b. np_getitem2 a i j = Inr b \<and> shape b = rest \<and> (wf a \<longrightarrow> wf b)
            \<and> set (data b) \<subseteq> set (data a)"
proof -
  from np_getitem_ok [OF assms(1,2)] obtain x where
    x: "np_getitem a i = Inr x" "shape x = n1 # rest" "wf a \<longrightarrow> wf x"
       "set (data x) \<subseteq> set (data a)"
    by blast
  from np_getitem_ok [OF x(2) assms(3)] obtain b where
    "np_getitem x j = Inr b" "shape b = rest" "wf x \<longrightarrow> wf b" "set (data b) \<subseteq> set (data x)"
    by blast
  with x show ?thesis
    by (auto simp: np_getitem2_def)
qed

lemma prod_list_leading_ones:
  "list_all (\<lambda>d. d = 1) (take n xs) \<Longrightarrow> prod_list (drop n xs) = prod_list (xs :: nat list)"
proof (induction xs arbitrary: n)
  case Nil
  then show ?case by simp
next
  case (Cons x xs)
  then show ?case by (cases n) simp_all
qed

lemma broadcast_index_in_range:
  assumes "list_all2 (\<lambda>vd td. vd = td \<or> vd = 1) vs ts" and "list_all2 (<) idx ts"
  shows "list_all2 (<) (map2 (\<lambda>vd i. if vd = 1 then 0 else i) vs idx) (vs :: nat list)"
  using assms
proof (induction vs ts arbitrary: idx rule: list_all2_induct)
  case Nil
  then show ?case by simp
next
  case (Cons v vs t ts)
  from Cons.prems obtain i idx' where idx: "idx = i # idx'" and i: "i < t"
    and rest: "list_all2 (<) idx' ts"
    by (cases idx) auto
  from Cons.IH [OF rest] Cons.hyps(1) i show ?case
    by (auto simp: idx)
qed

lemma broadcast_to_result:
  assumes "broadcast_to v t = Inr d"
  shows "length d = prod_list t" and "wf v \<Longrightarrow> set d \<subseteq> set (data v)"
proof -
  let ?vs = "drop (length (shape v) - length t) (shape v)"
  from assms have bc: "broadcastable (shape v) t"
    and d: "d = map (\<lambda>n. data v ! ravel ?vs
                 (map2 (\<lambda>vd i. if vd = 1 then 0 else i) ?vs
                    (drop (length t - length ?vs) (unravel t n)))) [0..<prod_list t]"
    by (auto simp: broadcast_to_def Let_def split: if_splits)
  show "length d = prod_list t" by (simp add: d)
  show "set d \<subseteq> set (data v)" if "wf v"
  proof
    fix x assume "x \<in> set d"
    then obtain n where n: "n < prod_list t" and
      x: "x = data v ! ravel ?vs (map2 (\<lambda>vd i. if vd = 1 then 0 else i) ?vs
                    (drop (length t - length ?vs) (unravel t n)))"
      by (auto simp: d)
    from bc have ones: "list_all (\<lambda>d. d = 1) (take (length (shape v) - length t) (shape v))"
      and comp: "list_all2 (\<lambda>vd td. vd = td \<or> vd = 1) ?vs
                   (drop (length t - length (shape v)) t)"
      by (simp_all add: broadcastable_def)
    have len: "length t - length ?vs = length t - length (shape v)"
      by simp
    have "list_all2 (<) (drop (length t - length (shape v)) (unravel t n))
            (drop (length t - length (shape v)) t)"
      using unravel_bound [OF n] by (rule list_all2_dropI)
    from broadcast_index_in_range [OF comp this]
    have "ravel ?vs (map2 (\<lambda>vd i. if vd = 1 then 0 else i) ?vs
                    (drop (length t - length ?vs) (unravel t n))) < prod_list ?vs"
      unfolding len by (rule ravel_bound)
    also have "prod_list ?vs = length (data v)"
      using prod_list_leading_ones [OF ones] that by (simp add: wf_def)
    finally show "x \<in> set (data v)"
      unfolding x by simp
  qed
qed

lemma broadcast_to_ok: "broadcastable (shape v) t \<Longrightarrow> \<exists>d. broadcast_to v t = Inr d"
  by (simp add: broadcast_to_def Let_def)

lemma broadcast_to_fails: "\<not> broadcastable (shape v) t \<Longrightarrow> broadcast_to v t = Inl ValueError"
  by (simp add: broadcast_to_def)

lemma np_setitem_ok:
  assumes "shape a = n # rest" and "i < n" and "broadcastable (shape v) rest"
  shows "\<exists>a'. np_setitem a i v = Inr a' \<and> shape a' = shape a \<and> (wf a \<longrightarrow> wf a')
            \<and> (wf v \<longrightarrow> set (data a') \<subseteq> set (data a) \<union> set (data v))"
proof -
  from broadcast_to_ok [OF assms(3)] obtain d where d: "broadcast_to v rest = Inr d" by blast
  note r = broadcast_to_result [OF d]
  let ?a' = "a\<lparr>data := take (i * prod_list rest) (data a) @ d
                 @ drop (Suc i * prod_list rest) (data a)\<rparr>"
  have "np_setitem a i v = Inr ?a'"
    using assms(1,2) d by (simp add: np_setitem_def Let_def)
  moreover have "wf ?a'" if "wf a"
    using that assms(1) length_replace_chunk [OF assms(2), of "data a" "prod_list rest" d] r(1)
    by (simp add: wf_def)
  moreover have "set (data ?a') \<subseteq> set (data a) \<union> set (data v)" if "wf v"
    using set_replace_chunk [of "i * prod_list rest" "data a" d "Suc i * prod_list rest"]
      r(2) [OF that] by auto
  ultimately show ?thesis by auto
qed

lemma np_setitem_fails:
  assumes "shape a = n # rest" and "i < n" and "\<not> broadcastable (shape v) rest"
  shows "np_setitem a i v = Inl ValueError"
  using assms by (simp add: np_setitem_def broadcast_to_fails)

lemma np_setitem_result:
  assumes "np_setitem a i v = Inr a'"
  shows "shape a' = shape a" and "wf a \<Longrightarrow> wf a'"
    and "wf v \<Longrightarrow> set (data a') \<subseteq> set (data a) \<union> set (data v)"
proof -
  from assms obtain n rest where s: "shape a = n # rest" and i: "i < n"
    by (auto simp: np_setitem_def split: list.splits if_splits)
  have bc: "broadcastable (shape v) rest"
    using assms s i np_setitem_fails [OF s i] by (cases "broadcastable (shape v) rest") auto
  from np_setitem_ok [OF s i bc] assms
  show "shape a' = shape a" and "wf a \<Longrightarrow> wf a'"
    and "wf v \<Longrightarrow> set (data a') \<subseteq> set (data a) \<union> set (data v)"
    by auto
qed

lemma np_setitem2_ok:
  assumes "shape a = n0 # n1 # rest" and "i < n0" and "j < n1"
    and "broadcastable (shape v) rest"
  shows "\<exists>a'. np_setitem2 a i j v = Inr a' \<and> shape a' = shape a \<and> (wf a \<longrightarrow> wf a')
            \<and> (wf v \<longrightarrow> set (data a') \<subseteq> set (data a) \<union> set (data v))"
proof -
  from broadcast_to_ok [OF assms(4)] obtain d where d: "broadcast_to v rest = Inr d" by blast
  note r = broadcast_to_result [OF d]
  let ?m = "prod_list rest"
  let ?off = "(i * n1 + j) * ?m"
  let ?a' = "a\<lparr>data := take ?off (data a) @ d @ drop (?off + ?m) (data a)\<rparr>"
  have idx: "i * n1 + j < n0 * n1"
  proof -
    have "i * n1 + j < Suc i * n1" using assms(3) by simp
    also have "\<dots> \<le> n0 * n1" using assms(2) by (rule chunk_le)
    finally show ?thesis .
  qed
  have off: "?off + ?m = Suc (i * n1 + j) * ?m" by simp
  have "np_setitem2 a i j v = Inr ?a'"
    using assms(1,2,3) d by (simp add: np_setitem2_def Let_def)
  moreover have "wf ?a'" if "wf a"
  proof -
    have "length (data a) = (n0 * n1) * ?m"
      using that assms(1) by (simp add: wf_def mult.assoc)
    from length_replace_chunk [OF idx this r(1)] that assms(1) show ?thesis
      unfolding off by (simp add: wf_def mult.assoc)
  qed
  moreover have "set (data ?a') \<subseteq> set (data a) \<union> set (data v)" if "wf v"
    using set_replace_chunk [of ?off "data a" d "?off + ?m"] r(2) [OF that] by auto
  ultimately show ?thesis by auto
qed

lemma np_setitem2_result:
  assumes "np_setitem2 a i j v = Inr a'"
  shows "shape a' = shape a" and "wf a \<Longrightarrow> wf a'"
    and "wf v \<Longrightarrow> set (data a') \<subseteq> set (data a) \<union> set (data v)"
proof -
  from assms obtain n0 n1 rest where s: "shape a = n0 # n1 # rest" and i: "i < n0" "j < n1"
    by (auto simp: np_setitem2_def split: list.splits if_splits)
  have bc: "broadcastable (shape v) rest"
    using assms s i by (cases "broadcastable (shape v) rest")
      (auto simp: np_setitem2_def broadcast_to_fails)
  from np_setitem2_ok [OF s i bc] assms
  show "shape a' = shape a" and "wf a \<Longrightarrow> wf a'"
    and "wf v \<Longrightarrow> set (data a') \<subseteq> set (data a) \<union> set (data v)"
    by auto
qed

subsection \<open>Progress: when the collaborators keep their contracts, the phases return\<close>

lemma weights_loop_returns:
  assumes "\<forall>i\<in>set slices. (\<exists>w. slice_weights ext (calib_data s) A i = Inr w) \<and>
                           (\<exists>w. slice_weights ext (calib_data s) B i = Inr w)"
  shows "\<exists>s'. weights_loop ext A B slices s = (Inr (), s')"
  using assms
proof (induction slices arbitrary: s)
  case Nil
  then show ?case by (simp add: lift_def)
next
  case (Cons i slices)
  from Cons.prems obtain w w2 where
    "slice_weights ext (calib_data s) A i = Inr w" "slice_weights ext (calib_data s) B i = Inr w2"
    by auto
  then obtain cr t where
    cr: "np_getitem (calib_data s) i = Inr cr" and t: "np_transpose cr [2, 0, 1] = Inr t"
    and w: "compute_weights ext A t = Inr w" and w2: "compute_weights ext B t = Inr w2"
    by (auto simp: slice_weights_def calib_input_def bind_err_def split: sum.splits)
  let ?s4 = "s\<lparr>trace := trace s @ [Call_compute_weights A t],
           grappa_weight_dict := (grappa_weight_dict s)(i \<mapsto> w),
           trace := trace s @ [Call_compute_weights A t, Call_compute_weights B t],
           grappa_weight_dict_2 := (grappa_weight_dict_2 s)(i \<mapsto> w2)\<rparr>"
  have run: "weights_loop ext A B (i # slices) s = weights_loop ext A B slices ?s4"
    using cr t w w2 by (simp add: seq_simps)
  have "\<exists>s'. weights_loop ext A B slices ?s4 = (Inr (), s')"
    using Cons.prems by (intro Cons.IH) simp
  then show ?case unfolding run .
qed

lemma calculate_weights_returns:
  assumes "shape (kspace_data s) = [na, ns, nc, nro, npe]"
    and "bind_err (engine_input (kspace_data s) 0 0) (\<lambda>t. Grappa ext t (5, 5) 1) = Inr A"
    and "bind_err (engine_input (kspace_data s) 1 0) (\<lambda>t. Grappa ext t (5, 5) 1) = Inr B"
    and "\<forall>i<ns. (\<exists>w. slice_weights ext (calib_data s) A i = Inr w) \<and>
                 (\<exists>w. slice_weights ext (calib_data s) B i = Inr w)"
  shows "\<exists>s1. calculate_weights ext s = (Inr ((na, ns, nc, nro, npe), A, B), s1)"
proof -
  from assms(2) obtain t where t: "engine_input (kspace_data s) 0 0 = Inr t"
    and A: "Grappa ext t (5, 5) 1 = Inr A"
    by (cases "engine_input (kspace_data s) 0 0") simp_all
  from assms(3) obtain t2 where t2: "engine_input (kspace_data s) 1 0 = Inr t2"
    and B: "Grappa ext t2 (5, 5) 1 = Inr B"
    by (cases "engine_input (kspace_data s) 1 0") simp_all
  let ?s2 = "s\<lparr>grappa_weight_dict := Map.empty, grappa_weight_dict_2 := Map.empty,
              trace := trace s @ [Call_Grappa t, Call_Grappa t2]\<rparr>"
  have run: "calculate_weights ext s
        = seq (weights_loop ext A B [0..<ns]) (\<lambda>_. lift (Inr ((na, ns, nc, nro, npe), A, B))) ?s2"
    using assms(1) t A t2 B
    by (auto simp add: calculate_weights_def seq_simps engine_input_def unpack5_def bind_err_def
        split: sum.splits)
  have "\<exists>s'. weights_loop ext A B [0..<ns] ?s2 = (Inr (), s')"
    using assms(4) by (intro weights_loop_returns) simp
  then show ?thesis
    unfolding run by (auto simp: seq_def lift_def)
qed

lemma apply_slices_returns:
  assumes "shape (kspace_data s) = [na, ns, nc, nro, npe]" and "wf (kspace_data s)"
    and "a < na" and "\<forall>i\<in>set slices. i < ns \<and> (\<exists>w. d i = Some w)"
    and "apply_keeps_shape ext"
    and "shape (kspace_post_grappa_all s) = [na, ns, nc, nro, npe]"
    and "wf (kspace_post_grappa_all s)"
  shows "\<exists>s'. apply_slices ext a E d slices s = (Inr (), s')
           \<and> shape (kspace_post_grappa_all s') = [na, ns, nc, nro, npe]
           \<and> wf (kspace_post_grappa_all s')"
  using assms
proof (induction slices arbitrary: s)
  case Nil
  then show ?case by (simp add: lift_def)
next
  case (Cons i slices)
  from Cons.prems(4) obtain w where i: "i < ns" and w: "lookup d i = Inr w"
    by (auto simp: lookup_def)
  from np_getitem2_ok [OF Cons.prems(1) Cons.prems(3) i] Cons.prems(2) obtain ksl where
    ksl: "np_getitem2 (kspace_data s) a i = Inr ksl" "shape ksl = [nc, nro, npe]"
    by blast
  from np_transpose_201 [OF ksl(2)] obtain t where
    t: "np_transpose ksl [2, 0, 1] = Inr t" "shape t = [npe, nc, nro]" "wf t"
    by blast
  from Cons.prems(5) t(3) obtain r where
    r: "apply_weights ext E t w = Inr r" "wf r" "shape r = shape t"
    unfolding apply_keeps_shape_def by blast
  from np_moveaxis_back [of r npe nc nro] r(3) t(2) obtain v where
    v: "bind_err (np_moveaxis r 0 1) (\<lambda>x. np_moveaxis x 1 2) = Inr v" "shape v = [nc, nro, npe]"
    by auto
  have bc: "broadcastable (shape v) [nc, nro, npe]"
    by (simp add: v(2))
  from np_setitem2_ok [OF Cons.prems(6) Cons.prems(3) i bc] Cons.prems(7) obtain buf where
    buf: "np_setitem2 (kspace_post_grappa_all s) a i v = Inr buf"
    "shape buf = [na, ns, nc, nro, npe]" "wf buf"
    using Cons.prems(6) by auto
  let ?s1 = "s\<lparr>trace := trace s @ [Call_apply_weights E t w], kspace_post_grappa_all := buf\<rparr>"
  have run: "apply_slices ext a E d (i # slices) s = apply_slices ext a E d slices ?s1"
    using ksl(1) t(1) w r(1) v(1) buf(1) by (simp add: seq_simps)
  have "\<exists>s'. apply_slices ext a E d slices ?s1 = (Inr (), s')
           \<and> shape (kspace_post_grappa_all s') = [na, ns, nc, nro, npe]
           \<and> wf (kspace_post_grappa_all s')"
    using Cons.prems buf by (intro Cons.IH) simp_all
  then show ?case unfolding run .
qed


lemma wf_np_zeros [simp]: "wf (np_zeros s)"
  by (simp add: wf_def np_zeros_def)

lemma shape_np_zeros [simp]: "shape (np_zeros s) = s"
  by (simp add: np_zeros_def)


lemma create_coil_combined_im_stack:
  assumes "shape k = [n0, c, r, p]"
    and "\<forall>i<n0. bind_err (np_getitem k i) (\<lambda>d. ifft d [1, 2]) = Inr (imgs i)
               \<and> wf (imgs i) \<and> shape (imgs i) = [c, r, p]"
  shows "create_coil_combined_im ifft k
         = Inr (stack_images [r, p] (map (\<lambda>i. combine_spec (imgs i)) [0..<n0]))"
proof -
  have step: "bind_err (np_getitem_colons k j 3) (\<lambda>d. bind_err (ifft d [1, 2]) (\<lambda>im.
          bind_err (rss im 0) np_flipud)) = Inr (combine_spec (imgs j))" if "j < n0" for j
  proof -
    from assms(2) that
    have h: "bind_err (np_getitem k j) (\<lambda>d. ifft d [1, 2]) = Inr (imgs j)"
      and w: "wf (imgs j)" and s: "shape (imgs j) = [c, r, p]" by simp_all
    from h obtain d where d: "np_getitem k j = Inr d" and i: "ifft d [1, 2] = Inr (imgs j)"
      by (cases "np_getitem k j") simp_all
    have "np_getitem_colons k j 3 = Inr d"
      using d assms(1) by (simp add: np_getitem_colons_def ndim_def)
    then show ?thesis
      using i rss_flipud_spec [OF w s] by simp
  qed
  have fwf: "wf (combine_spec (imgs j)) \<and> shape (combine_spec (imgs j)) = [r, p]" if "j < n0" for j
    using assms(2) that combine_spec_shape by blast
  have "coil_loop ifft k [0..<n0]
           \<lparr>shape = [n0, r, p],
            data = concat (map (\<lambda>j. data (combine_spec (imgs j))) [0..<0])
                   @ replicate ((n0 - 0) * (r * p)) 0\<rparr>
         = Inr \<lparr>shape = [n0, r, p],
               data = concat (map (\<lambda>j. data (combine_spec (imgs j))) [0..<n0])\<rparr>"
  proof (rule coil_loop_upt [where f = "\<lambda>j. combine_spec (imgs j)"])
    show "0 \<le> n0" by simp
  qed (fact step, fact fwf)
  then show ?thesis
    using assms(1)
    by (simp add: create_coil_combined_im_def shape_at_def ndim_def np_zeros_def
        stack_images_def o_def)
qed

lemma seq_returns: "m s = (Inr x, s') \<Longrightarrow> seq m f s = f x s'"
  by (simp add: seq_def)

lemma seq_raises: "m s = (Inl e, s') \<Longrightarrow> seq m f s = (Inl e, s')"
  by (simp add: seq_def)












lemma calib_input_in_range:
  assumes "shape c = [cs, x, y, z]" and "i < cs"
  shows "\<exists>t. calib_input c i = Inr t"
proof -
  from np_getitem_ok [OF assms] obtain b where b: "np_getitem c i = Inr b" "shape b = [x, y, z]"
    by blast
  from np_transpose_201 [OF b(2)] b(1) show ?thesis
    by (auto simp: calib_input_def)
qed





subsection \<open>All-zero arrays\<close>

lemma all_zero_subset: "all_zero a \<longleftrightarrow> set (data a) \<subseteq> {0}"
  by (auto simp: all_zero_def list_all_iff)

lemma all_zero_np_zeros [simp]: "all_zero (np_zeros s)"
  by (simp add: all_zero_def np_zeros_def list_all_iff)

lemma np_getitem_result:
  assumes "np_getitem a i = Inr b"
  shows "wf a \<Longrightarrow> wf b" and "set (data b) \<subseteq> set (data a)"
proof -
  from assms obtain n rest where s: "shape a = n # rest" and i: "i < n"
    by (auto simp: np_getitem_def split: list.splits if_splits)
  from np_getitem_ok [OF s i] assms
  show "wf a \<Longrightarrow> wf b" and "set (data b) \<subseteq> set (data a)" by auto
qed

lemma np_getitem_zero:
  assumes "np_getitem a i = Inr b" and "wf a" and "all_zero a"
  shows "wf b \<and> all_zero b"
  using np_getitem_result [OF assms(1)] assms(2,3) by (auto simp: all_zero_subset)

lemma np_getitem2_zero:
  assumes "np_getitem2 a i j = Inr b" and "wf a" and "all_zero a"
  shows "wf b \<and> all_zero b"
proof -
  from assms(1) obtain x where x: "np_getitem a i = Inr x" and b: "np_getitem x j = Inr b"
    by (cases "np_getitem a i") (simp_all add: np_getitem2_def)
  from np_getitem_zero [OF x assms(2,3)] np_getitem_zero [OF b] show ?thesis by blast
qed

lemma np_transpose_zero:
  assumes "np_transpose a axes = Inr b" and "wf a" and "all_zero a"
  shows "wf b \<and> all_zero b"
  using np_transpose_result(2,3) [OF assms(1)] assms(2,3) by (auto simp: all_zero_subset)

lemma np_moveaxis_zero:
  assumes "np_moveaxis a src dst = Inr b" and "wf a" and "all_zero a"
  shows "wf b \<and> all_zero b"
  using np_moveaxis_result [OF assms(1)] assms(2,3) by (auto simp: all_zero_subset)

lemma np_setitem_zero:
  assumes "np_setitem a i v = Inr a'" and "wf a" and "all_zero a" and "wf v" and "all_zero v"
  shows "wf a' \<and> all_zero a'"
  using np_setitem_result(2,3) [OF assms(1)] assms(2-5) by (auto simp: all_zero_subset)

lemma np_setitem2_zero:
  assumes "np_setitem2 a i j v = Inr a'" and "wf a" and "all_zero a" and "wf v" and "all_zero v"
  shows "wf a' \<and> all_zero a'"
  using np_setitem2_result(2,3) [OF assms(1)] assms(2-5) by (auto simp: all_zero_subset)

lemma chunk_index: "k < n \<Longrightarrow> j < m \<Longrightarrow> k * m + j < n * (m::nat)"
proof -
  assume "k < n" "j < m"
  then have "k * m + j < Suc k * m" by simp
  also have "\<dots> \<le> n * m" using \<open>k < n\<close> by (rule chunk_le)
  finally show ?thesis .
qed

lemma sum_axis0_zero:
  assumes "sum_axis0 a = Inr b" and "wf a" and "all_zero a"
  shows "wf b \<and> all_zero (b :: ('a::comm_monoid_add) ndarray)"
proof -
  from assms(1) obtain n rest where s: "shape a = n # rest"
    and b: "b = \<lparr>shape = rest,
           data = map (\<lambda>j. sum_list (map (\<lambda>k. data a ! (k * prod_list rest + j)) [0..<n]))
                    [0..<prod_list rest]\<rparr>"
    by (auto simp: sum_axis0_def Let_def split: list.splits)
  have len: "length (data a) = n * prod_list rest"
    using assms(2) s by (simp add: wf_def)
  have z: "data a ! (k * prod_list rest + j) = 0" if "k < n" "j < prod_list rest" for k j
  proof -
    have "data a ! (k * prod_list rest + j) \<in> set (data a)"
      using chunk_index [OF that] len by simp
    then show ?thesis using assms(3) by (auto simp: all_zero_subset)
  qed
  have "sum_list (map (\<lambda>k. data a ! (k * prod_list rest + j)) [0..<n]) = 0"
    if "j < prod_list rest" for j
  proof -
    have "map (\<lambda>k. data a ! (k * prod_list rest + j)) [0..<n] = map (\<lambda>k. 0) [0..<n]"
      using z that by (intro map_cong) simp_all
    then have "sum_list (map (\<lambda>k. data a ! (k * prod_list rest + j)) [0..<n])
               = sum_list (map (\<lambda>k. 0) [0..<n])"
      by (rule arg_cong)
    then show ?thesis by simp
  qed
  then show ?thesis
    by (auto simp: b wf_def all_zero_subset)
qed

lemma rss_zero:
  assumes "rss a 0 = Inr b" and "wf a" and "all_zero a"
  shows "wf b \<and> all_zero b"
proof -
  let ?sq = "np_square (np_abs a)"
  have sq: "wf ?sq" "all_zero ?sq"
    using assms(2,3) by (auto simp: wf_def all_zero_subset np_square_def np_abs_def)
  from assms(1) obtain x where x: "np_sum ?sq 0 = Inr x" and b: "b = np_sqrt x"
    by (cases "np_sum ?sq 0") (simp_all add: rss_def)
  from x have "sum_axis0 ?sq = Inr x"
    by (auto simp: np_sum_def normalize_axis_def bind_err_def split: if_splits sum.splits)
  from sum_axis0_zero [OF this sq] show ?thesis
    by (auto simp: b np_sqrt_def wf_def all_zero_subset)
qed

lemma np_mean_zero:
  assumes "np_mean a 0 = Inr b" and "wf a" and "all_zero a"
  shows "wf b \<and> all_zero b"
proof -
  from assms(1) obtain x where x: "np_sum a 0 = Inr x"
    and b: "b = x\<lparr>data := map (\<lambda>v. v / real (shape a ! 0)) (data x)\<rparr>"
    by (auto simp: np_mean_def normalize_axis_def bind_err_def split: if_splits sum.splits)
  from x have "sum_axis0 a = Inr x"
    by (auto simp: np_sum_def normalize_axis_def bind_err_def split: if_splits sum.splits)
  from sum_axis0_zero [OF this assms(2,3)] show ?thesis
    by (auto simp: b wf_def all_zero_subset)
qed

lemma np_flipud_zero:
  assumes "np_flipud a = Inr b" and "wf a" and "all_zero a"
  shows "wf b \<and> all_zero b"
proof -
  from assms(1) obtain n rest where s: "shape a = n # rest"
    and b: "b = a\<lparr>data := concat (map (\<lambda>k. take (prod_list rest)
                 (drop ((n - 1 - k) * prod_list rest) (data a))) [0..<n])\<rparr>"
    by (auto simp: np_flipud_def Let_def split: list.splits)
  let ?m = "prod_list rest"
  have len: "length (data a) = n * ?m"
    using assms(2) s by (simp add: wf_def)
  have "length (take ?m (drop ((n - 1 - k) * ?m) (data a))) = ?m" if "k < n" for k
    using that len by (intro length_chunk [where n = n]) simp_all
  then have "map (\<lambda>k. length (take ?m (drop ((n - 1 - k) * ?m) (data a)))) [0..<n]
             = map (\<lambda>k. ?m) [0..<n]"
    by (intro map_cong) simp_all
  then have "sum_list (map (\<lambda>k. length (take ?m (drop ((n - 1 - k) * ?m) (data a)))) [0..<n])
             = sum_list (map (\<lambda>k. ?m) [0..<n])"
    by (rule arg_cong)
  then have "wf b"
    using s by (simp add: b wf_def length_concat o_def sum_list_triv)
  moreover have "set (data b) \<subseteq> set (data a)"
    using set_take_subset set_drop_subset by (fastforce simp: b)
  ultimately show ?thesis
    using assms(3) by (auto simp: all_zero_subset)
qed

lemma zeros_inv_other_fields [simp]:
  "zeros_inv (s\<lparr>trace := tr\<rparr>) = zeros_inv s"
  "zeros_inv (s\<lparr>grappa_weight_dict := d\<rparr>) = zeros_inv s"
  "zeros_inv (s\<lparr>grappa_weight_dict_2 := d\<rparr>) = zeros_inv s"
  by (simp_all add: zeros_inv_def)

lemma lift_Inr_iff: "lift r s = (Inr x, s') \<longleftrightarrow> r = Inr x \<and> s' = s"
  by (auto simp: lift_def)

lemma get_Inr_iff: "get f s = (Inr x, s') \<longleftrightarrow> x = f s \<and> s' = s"
  by (auto simp: get_def)

lemma modify_Inr_iff: "modify g s = (Inr x, s') \<longleftrightarrow> s' = g s"
  by (auto simp: modify_def)

lemma weights_loop_zeros: "zeros_inv s \<Longrightarrow> zeros_inv (snd (weights_loop ext A B slices s))"
proof (induction slices arbitrary: s)
  case Nil
  then show ?case by (simp add: lift_def)
next
  case (Cons j slices)
  have "zeros_inv (snd (weights_loop ext A B slices s'))" if "zeros_inv s'" for s'
    using that by (rule Cons.IH)
  then show ?case
    using Cons.prems by (simp add: seq_simps split: sum.splits)
qed

lemma calculate_weights_zeros:
  assumes "calculate_weights ext s = (Inr x, s1)" and "zeros_inv s"
  shows "zeros_inv s1"
proof -
  obtain dims A B where x: "x = (dims, A, B)" by (cases x)
  from calculate_weights_success(4) [OF assms(1) [unfolded x]] obtain s0 where
    wl: "weights_loop ext A B [0..<fst (snd dims)] s0 = (Inr (), s1)" by blast
  from assms(1) [unfolded x] obtain t t2 where
    "weights_loop ext A B [0..<fst (snd dims)]
       (s\<lparr>grappa_weight_dict := Map.empty, grappa_weight_dict_2 := Map.empty,
          trace := trace s @ [Call_Grappa t, Call_Grappa t2]\<rparr>) = (Inr (), s1)"
    unfolding calculate_weights_def
    by (auto simp: seq_simps seq_Inr_iff lift_def unpack5_def split: sum.splits prod.splits list.splits)
  moreover have "zeros_inv (s\<lparr>grappa_weight_dict := Map.empty, grappa_weight_dict_2 := Map.empty,
          trace := trace s @ [Call_Grappa t, Call_Grappa t2]\<rparr>)"
    using assms(2) by (simp add: zeros_inv_def)
  ultimately show ?thesis
    using weights_loop_zeros by (metis snd_conv)
qed

lemma apply_slices_zeros:
  assumes "apply_slices ext a E d slices s = (Inr u, s')" and "zeros_inv s"
    and "\<forall>E w. maps_zero_to_zero (\<lambda>t. apply_weights ext E t w)"
  shows "zeros_inv s'"
  using assms(1,2)
proof (induction slices arbitrary: s)
  case Nil
  then show ?case by (simp add: lift_def)
next
  case (Cons i slices)
  from Cons.prems(1) obtain ksl t w r x v buf where
    ksl: "np_getitem2 (kspace_data s) a i = Inr ksl" and t: "np_transpose ksl [2, 0, 1] = Inr t"
    and r: "apply_weights ext E t w = Inr r"
    and x: "np_moveaxis r 0 1 = Inr x" and v: "np_moveaxis x 1 2 = Inr v"
    and buf: "np_setitem2 (kspace_post_grappa_all s) a i v = Inr buf"
    and rest: "apply_slices ext a E d slices
        (s\<lparr>trace := trace s @ [Call_apply_weights E t w], kspace_post_grappa_all := buf\<rparr>)
        = (Inr u, s')"
    by (auto simp: seq_simps bind_err_def split: sum.splits)
  from Cons.prems(2) have k: "wf (kspace_data s)" "all_zero (kspace_data s)"
    and b: "wf (kspace_post_grappa_all s)" "all_zero (kspace_post_grappa_all s)"
    by (simp_all add: zeros_inv_def)
  from np_getitem2_zero [OF ksl k] have "wf ksl \<and> all_zero ksl" .
  with np_transpose_zero [OF t] have tz: "wf t \<and> all_zero t" by blast
  from assms(3) have "maps_zero_to_zero (\<lambda>t. apply_weights ext E t w)" by blast
  with tz r have "wf r \<and> all_zero r"
    unfolding maps_zero_to_zero_def by blast
  with np_moveaxis_zero [OF x] have "wf x \<and> all_zero x" by blast
  with np_moveaxis_zero [OF v] have "wf v \<and> all_zero v" by blast
  with np_setitem2_zero [OF buf b] have "wf buf \<and> all_zero buf" by blast
  then have "zeros_inv (s\<lparr>trace := trace s @ [Call_apply_weights E t w],
      kspace_post_grappa_all := buf\<rparr>)"
    using Cons.prems(2) by (simp add: zeros_inv_def)
  then show ?case by (rule Cons.IH [OF rest])
qed

lemma apply_averages_zeros:
  assumes "apply_averages ext trip slices s = (Inr u, s')" and "zeros_inv s"
    and "\<forall>E w. maps_zero_to_zero (\<lambda>t. apply_weights ext E t w)"
  shows "zeros_inv s'"
  using assms(1,2)
proof (induction trip arbitrary: s)
  case Nil
  then show ?case by (simp add: lift_def)
next
  case (Cons x trip)
  obtain a E d where x: "x = (a, E, d)" by (cases x)
  from Cons.prems(1) obtain s1 where
    first: "apply_slices ext a E d slices s = (Inr (), s1)"
    and rest: "apply_averages ext trip slices s1 = (Inr u, s')"
    unfolding x by (auto simp: seq_Inr_iff)
  from apply_slices_zeros [OF first Cons.prems(2) assms(3)]
  show ?case by (rule Cons.IH [OF rest])
qed

lemma apply_weights_phase_zeros:
  assumes "apply_weights_phase ext ns A B s = (Inr u, s')" and "zeros_inv s"
    and "\<forall>E w. maps_zero_to_zero (\<lambda>t. apply_weights ext E t w)"
  shows "zeros_inv s'"
proof -
  let ?s1 = "s\<lparr>kspace_post_grappa_all := np_zeros (shape (kspace_data s))\<rparr>"
  have "apply_averages ext [(0, A, grappa_weight_dict s), (1, B, grappa_weight_dict_2 s),
          (2, A, grappa_weight_dict s)] [0..<ns] ?s1 = (Inr u, s')"
    using assms(1) by (simp add: apply_weights_phase_def seq_simps)
  moreover have "zeros_inv ?s1"
    using assms(2) by (simp add: zeros_inv_def)
  ultimately show ?thesis
    using assms(3) by (rule apply_averages_zeros)
qed

lemma coil_loop_zeros:
  assumes "coil_loop ifft k idxs image_mat = Inr out"
    and "wf k" and "all_zero k" and "wf image_mat" and "all_zero image_mat"
    and "maps_zero_to_zero (\<lambda>a. ifft a [1, 2])"
  shows "wf out \<and> all_zero out"
  using assms(1,4,5)
proof (induction idxs arbitrary: image_mat)
  case Nil
  then show ?case by simp
next
  case (Cons i idxs)
  from Cons.prems(1) obtain sl image r fl mat where
    sl: "np_getitem k i = Inr sl" and image: "ifft sl [1, 2] = Inr image"
    and r: "rss image 0 = Inr r" and fl: "np_flipud r = Inr fl"
    and mat: "np_setitem image_mat i fl = Inr mat"
    and rest: "coil_loop ifft k idxs mat = Inr out"
    by (auto simp: bind_err_def np_getitem_colons_def np_setitem_colons_def
        split: sum.splits if_splits)
  from np_getitem_zero [OF sl assms(2,3)] have "wf sl \<and> all_zero sl" .
  with assms(6) image have "wf image \<and> all_zero image"
    unfolding maps_zero_to_zero_def by blast
  with rss_zero [OF r] have "wf r \<and> all_zero r" by blast
  with np_flipud_zero [OF fl] have "wf fl \<and> all_zero fl" by blast
  with np_setitem_zero [OF mat Cons.prems(2,3)] have "wf mat" "all_zero mat" by blast+
  then show ?case by (rule Cons.IH [OF rest])
qed

lemma create_coil_combined_im_zeros:
  assumes "create_coil_combined_im ifft k = Inr out" and "wf k" and "all_zero k"
    and "maps_zero_to_zero (\<lambda>a. ifft a [1, 2])"
  shows "wf out \<and> all_zero out"
proof -
  from assms(1) obtain n0 n2 n3 where
    "coil_loop ifft k [0..<n0] (np_zeros [n0, n2, n3]) = Inr out"
    by (auto simp: create_coil_combined_im_def bind_err_def split: sum.splits)
  from coil_loop_zeros [OF this assms(2,3) _ _ assms(4)] show ?thesis by simp
qed

lemma recon_loop_zeros:
  assumes "recon_loop ext hdr avs s = (Inr u, s')" and "zeros_inv s"
    and "maps_zero_to_zero (zero_pad_kspace_hdr ext hdr)"
    and "maps_zero_to_zero (\<lambda>a. ifftnd ext a [1, 2])"
  shows "zeros_inv s'"
  using assms(1,2)
proof (induction avs arbitrary: s)
  case Nil
  then show ?case by (simp add: lift_def)
next
  case (Cons a avs)
  from Cons.prems(1) obtain kg pd img i' where
    kg: "np_getitem (kspace_post_grappa_all s) a = Inr kg"
    and pd: "zero_pad_kspace_hdr ext hdr kg = Inr pd"
    and img: "create_coil_combined_im (ifftnd ext) pd = Inr img"
    and i': "np_setitem (im s) a img = Inr i'"
    and rest: "recon_loop ext hdr avs (s\<lparr>im := i'\<rparr>) = (Inr u, s')"
    by (auto simp: seq_simps split: sum.splits)
  from Cons.prems(2) have b: "wf (kspace_post_grappa_all s)" "all_zero (kspace_post_grappa_all s)"
    and i: "wf (im s)" "all_zero (im s)"
    by (simp_all add: zeros_inv_def)
  from np_getitem_zero [OF kg b] have "wf kg \<and> all_zero kg" .
  with assms(3) pd have p: "wf pd" "all_zero pd"
    unfolding maps_zero_to_zero_def by blast+
  from create_coil_combined_im_zeros [OF img p assms(4)] have "wf img" "all_zero img" by blast+
  with np_setitem_zero [OF i' i] have "wf i' \<and> all_zero i'" by blast
  then have "zeros_inv (s\<lparr>im := i'\<rparr>)"
    using Cons.prems(2) by (simp add: zeros_inv_def)
  then show ?case by (rule Cons.IH [OF rest])
qed

lemma zero_in_zero_out:
  assumes "fst (t2_reconstruction ext k c hdr) = Inr out" and "wf k" and "all_zero k"
    and "\<forall>E w. maps_zero_to_zero (\<lambda>t. apply_weights ext E t w)"
    and "maps_zero_to_zero (zero_pad_kspace_hdr ext hdr)"
    and "maps_zero_to_zero (\<lambda>a. ifftnd ext a [1, 2])"
    and "maps_zero_to_zero (\<lambda>a. center_crop_im ext a [320, 320])"
  shows "\<exists>img. out = [(''reconstruction_rss'', img)] \<and> all_zero img"
proof -
  let ?s0 = "init_state k c :: ('a, 'b) state"
  obtain s3 where run: "t2_body ext hdr ?s0 = (Inr out, s3)"
    using assms(1) by (cases "t2_body ext hdr ?s0") (simp add: t2_reconstruction_def)
  then obtain na ns nc nro npe A B s1 s2 where
    cw: "calculate_weights ext ?s0 = (Inr ((na, ns, nc, nro, npe), A, B), s1)"
    and ap: "apply_weights_phase ext ns A B s1 = (Inr (), s2)"
    and rc: "recon_phase ext hdr na ns nro s2 = (Inr out, s3)"
    unfolding t2_body_def by (auto simp: seq_Inr_iff)
  have "zeros_inv ?s0"
    using assms(2,3) by (simp add: zeros_inv_def init_state_def)
  from calculate_weights_zeros [OF cw this] have "zeros_inv s1" .
  from apply_weights_phase_zeros [OF ap this assms(4)] have z2: "zeros_inv s2" .
  let ?s2 = "s2\<lparr>im := np_zeros [na, ns, nro, nro]\<rparr>"
  from rc obtain s4 m cropped where
    rl: "recon_loop ext hdr [0..<na] ?s2 = (Inr (), s4)"
    and m: "np_mean (im s4) 0 = Inr m"
    and cr: "center_crop_im ext m [320, 320] = Inr cropped"
    and out: "out = [(''reconstruction_rss'', cropped)]"
    unfolding recon_phase_def
    by (auto simp: seq_Inr_iff lift_Inr_iff get_Inr_iff modify_Inr_iff)
  have "zeros_inv ?s2"
    using z2 by (simp add: zeros_inv_def)
  from recon_loop_zeros [OF rl this assms(5,6)] have "wf (im s4)" "all_zero (im s4)"
    by (simp_all add: zeros_inv_def)
  from np_mean_zero [OF m this] have "wf m \<and> all_zero m" .
  with assms(7) cr have "all_zero cropped"
    unfolding maps_zero_to_zero_def by blast
  with out show ?thesis by simp
qed

lemma run_passthrough_zero:
  "fst (t2_reconstruction passthrough (np_zeros [3, 1, 1, 1, 1]) calib_1_1_1_1 [])
   = Inr [(''reconstruction_rss'', \<lparr>shape = [1, 1, 1], data = [0]\<rparr>)]"
  by (simp add: pipeline_defs array_defs passthrough_def calib_1_1_1_1_def upt_rec)

lemma passthrough_maps_zero_to_zero:
  "maps_zero_to_zero (\<lambda>t. apply_weights passthrough E t w)"
  "maps_zero_to_zero (zero_pad_kspace_hdr passthrough hdr)"
  "maps_zero_to_zero (\<lambda>a. ifftnd passthrough a axes)"
  "maps_zero_to_zero (\<lambda>a. center_crop_im passthrough a crop_to_size)"
  by (simp_all add: maps_zero_to_zero_def passthrough_def)

lemma apply_slices_out_of_range:
  assumes "shape (kspace_data s) = [na, ns, nc, nro, npe]" and "na \<le> a"
  shows "apply_slices ext a E d (i # slices) s = (Inl IndexError, s)"
proof -
  have "np_getitem2 (kspace_data s) a i = Inl IndexError"
    using assms by (simp add: np_getitem2_def np_getitem_def)
  then show ?thesis by (simp add: seq_simps)
qed

lemma two_averages_run_index_error:
  assumes "shape k = [2, ns, nc, nro, npe]" and "0 < ns" and "wf k"
    and "engines_ready ext k c ns" and "apply_keeps_shape ext"
  shows "fst (t2_reconstruction ext k c hdr) = Inl IndexError"
proof -
  let ?s0 = "init_state k c :: ('a, 'b) state"
  have k0: "kspace_data ?s0 = k" "calib_data ?s0 = c"
    by (simp_all add: init_state_def)
  from assms(4) obtain A B where
    A: "bind_err (engine_input k 0 0) (\<lambda>t. Grappa ext t (5, 5) 1) = Inr A"
    and B: "bind_err (engine_input k 1 0) (\<lambda>t. Grappa ext t (5, 5) 1) = Inr B"
    and w: "\<forall>s<ns. (\<exists>w. slice_weights ext c A s = Inr w) \<and> (\<exists>w. slice_weights ext c B s = Inr w)"
    unfolding engines_ready_def by blast
  from calculate_weights_returns [of ?s0 2 ns nc nro npe ext A B] assms(1) A B w k0
  obtain s1 where cw: "calculate_weights ext ?s0 = (Inr ((2, ns, nc, nro, npe), A, B), s1)"
    by auto
  have k1: "kspace_data s1 = k"
    using calculate_weights_same_inputs [of ?s0 ext] cw by (simp add: same_inputs_def k0)
  from calculate_weights_success(4) [OF cw] obtain s0' where
    wl: "weights_loop ext A B [0..<ns] s0' = (Inr (), s1)"
    by auto
  have dicts: "\<forall>i\<in>set [0..<ns]. i < ns \<and> (\<exists>w. grappa_weight_dict s1 i = Some w)"
    "\<forall>i\<in>set [0..<ns]. i < ns \<and> (\<exists>w. grappa_weight_dict_2 s1 i = Some w)"
    using weights_loop_success [OF wl] by simp_all
  let ?d = "grappa_weight_dict s1" and ?d2 = "grappa_weight_dict_2 s1"
  let ?s1 = "s1\<lparr>kspace_post_grappa_all := np_zeros (shape k)\<rparr>"
  have sh: "shape (kspace_data ?s1) = [2, ns, nc, nro, npe]" "wf (kspace_data ?s1)"
    "shape (kspace_post_grappa_all ?s1) = [2, ns, nc, nro, npe]" "wf (kspace_post_grappa_all ?s1)"
    using assms(1,3) k1 by simp_all
  from apply_slices_returns [OF sh(1,2) _ dicts(1) assms(5) sh(3,4), of 0 A] obtain s2 where
    s2: "apply_slices ext 0 A ?d [0..<ns] ?s1 = (Inr (), s2)"
    "shape (kspace_post_grappa_all s2) = [2, ns, nc, nro, npe]" "wf (kspace_post_grappa_all s2)"
    by auto
  have k2: "kspace_data s2 = k"
    using apply_slices_same_inputs [of ?s1 ext 0 A ?d "[0..<ns]"] s2(1) k1
    by (simp add: same_inputs_def)
  from apply_slices_returns [of s2 2 ns nc nro npe 1 "[0..<ns]" ?d2 ext B] dicts(2) assms s2 k2
  obtain s3 where s3: "apply_slices ext 1 B ?d2 [0..<ns] s2 = (Inr (), s3)"
    by auto
  have k3: "kspace_data s3 = k"
    using apply_slices_same_inputs [of s2 ext 1 B ?d2 "[0..<ns]"] s3 k2
    by (simp add: same_inputs_def)
  have up: "[0..<ns] = 0 # [1..<ns]"
    using assms(2) by (simp add: upt_conv_Cons)
  have e3: "apply_slices ext 2 A ?d [0..<ns] s3 = (Inl IndexError, s3)"
    unfolding up using assms(1) k3
    by (intro apply_slices_out_of_range [where na = 2 and ns = ns and nc = nc and nro = nro
          and npe = npe]) simp_all
  then have "apply_averages ext [(0, A, ?d), (1, B, ?d2), (2, A, ?d)] [0..<ns] ?s1
             = (Inl IndexError, s3)"
    unfolding apply_averages.simps
    by (simp only: seq_returns [where m = "apply_slices ext 0 A ?d [0..<ns]", OF s2(1)]
        seq_returns [where m = "apply_slices ext 1 B ?d2 [0..<ns]", OF s3]
        seq_raises [where m = "apply_slices ext 2 A ?d [0..<ns]", OF e3])
  then have "apply_weights_phase ext ns A B s1 = (Inl IndexError, s3)"
    by (simp add: apply_weights_phase_def seq_simps k1)
  then show ?thesis
    unfolding t2_reconstruction_def t2_body_def
    by (simp add: seq_returns [where m = "calculate_weights ext", OF cw] seq_raises)
qed

lemma passthrough_engines_ready:
  assumes "shape k = [na, ns, nc, nro, npe]" and "2 \<le> na" and "0 < ns"
    and "shape c = [cs, x, y, z]" and "ns \<le> cs"
  shows "engines_ready passthrough k c ns"
proof -
  from engine_input_in_range [OF assms(1), of 0 0] assms(2,3) obtain t0 where
    t0: "engine_input k 0 0 = Inr t0" by auto
  from engine_input_in_range [OF assms(1), of 1 0] assms(2,3) obtain t1 where
    t1: "engine_input k 1 0 = Inr t1" by auto
  have "\<exists>w. slice_weights passthrough c E s = Inr w" if "s < ns" for s E
    using calib_input_in_range [OF assms(4), of s] that assms(5)
    by (auto simp: slice_weights_def passthrough_def)
  then show ?thesis
    unfolding engines_ready_def
    using t0 t1
    by (intro exI [of _ t0] exI [of _ t1]) (simp add: passthrough_def)
qed

lemma passthrough_apply_keeps_shape: "apply_keeps_shape passthrough"
  by (simp add: apply_keeps_shape_def passthrough_def)

subsection \<open>Moving a singleton axis to the front\<close>












section \<open>Claims about the reductions\<close>





section \<open>Claims about the coil combination\<close>

text \<open>
  C4. For a k-space of shape (slices, coils, rows, columns) whose slices the inverse
  transform maps to images of the same shape, \<open>create_coil_combined_im\<close> returns, in
  slice order, the root sum of squares over the coils of the transformed slice, flipped
  vertically.
\<close>

theorem create_coil_combined_im_spec:
  assumes "shape k = [n0, c, r, p]"
    and "\<forall>i<n0. bind_err (np_getitem k i) (\<lambda>d. ifft d [1, 2]) = Inr (imgs i)
               \<and> wf (imgs i) \<and> shape (imgs i) = [c, r, p]"
  shows "create_coil_combined_im ifft k
         = Inr (stack_images [r, p] (map (\<lambda>i. combine_spec (imgs i)) [0..<n0]))"
  using assms by (rule create_coil_combined_im_stack)

theorem create_coil_combined_im_spec_witness:
  "create_coil_combined_im (\<lambda>a axes. Inr a)
      \<lparr>shape = [1, 2, 2, 1], data = [3, 0, 4, 0]\<rparr>
   = Inr (stack_images [2, 1] [combine_spec \<lparr>shape = [2, 2, 1], data = [3, 0, 4, 0]\<rparr>])"
  using create_coil_combined_im_spec [of "\<lparr>shape = [1, 2, 2, 1], data = [3, 0, 4, 0]\<rparr>" 1 2 2 1
      "\<lambda>a axes. Inr a" "\<lambda>i. \<lparr>shape = [2, 2, 1], data = [3, 0, 4, 0]\<rparr>"]
  by (simp add: np_getitem_def wf_def)

section \<open>Claims about the pipeline\<close>

text \<open>
  C8. In every run of \<open>t2_reconstruction\<close>, whether it returns or raises, no call of
  \<^verbatim>\<open>compute_weights\<close> (or of the constructor) comes after a call of \<^verbatim>\<open>apply_weights\<close>;
  if any weight application was attempted then both engines had computed the weights of
  every slice; and if a call of \<^verbatim>\<open>compute_weights\<close> raised, the run ended with that
  exception and no weight application was attempted.
\<close>

theorem weights_before_application:
  "computes_before_applies (trace (snd (t2_reconstruction ext k c hdr))) \<and>
   (has_apply (trace (snd (t2_reconstruction ext k c hdr))) \<longrightarrow>
      length (filter is_compute (trace (snd (t2_reconstruction ext k c hdr)))) = 2 * (shape k ! 1)) \<and>
   (\<forall>E t e. Call_compute_weights E t \<in> set (trace (snd (t2_reconstruction ext k c hdr))) \<longrightarrow>
      compute_weights ext E t = Inl e \<longrightarrow>
      fst (t2_reconstruction ext k c hdr) = Inl e
      \<and> \<not> has_apply (trace (snd (t2_reconstruction ext k c hdr))))"
proof -
  let ?s0 = "init_state k c :: ('a, 'b) state"
  let ?cw = "calculate_weights ext ?s0"
  from calculate_weights_trace [of ext ?s0] obtain inits evs where
    tr: "trace (snd ?cw) = inits @ evs" and i: "list_all is_init inits"
    and post: "weights_post ext (shape k ! 1) (fst ?cw) evs"
    by (auto simp: init_state_def)
  from post have c: "list_all is_compute evs" by (simp add: weights_post_def)
  show ?thesis
  proof (cases "fst ?cw")
    case (Inl e)
    then have run: "t2_reconstruction ext k c hdr = (Inl e, snd ?cw)"
      by (cases ?cw) (simp add: t2_reconstruction_def t2_body_def seq_def)
    have tr': "trace (snd (t2_reconstruction ext k c hdr)) = inits @ evs @ []"
      using run tr by simp
    have mem: "Call_compute_weights E t \<in> set evs"
      if "Call_compute_weights E t \<in> set (inits @ evs @ [])" for E t
      using phased_trace_compute_mem [OF i _ that] by simp
    have fail: "e' = e"
      if "Call_compute_weights E t \<in> set evs" and "compute_weights ext E t = Inl e'" for E t e'
      using post Inl that by (auto simp: weights_post_def)
    have "e' = e" if "Call_compute_weights E t \<in> set (inits @ evs @ [])"
      and "compute_weights ext E t = Inl e'" for E t e'
      using fail [OF mem [OF that(1)] that(2)] .
    then show ?thesis
      unfolding tr'
      using phased_trace_ordered [OF i c, of "[]"] phased_trace_has_apply [OF i c, of "[]"] run
      by (intro conjI allI impI) simp_all
  next
    case (Inr x)
    obtain na ns nc nro npe A B where x: "x = ((na, ns, nc, nro, npe), A, B)"
      by (cases x) auto
    let ?rest = "seq (apply_weights_phase ext ns A B) (\<lambda>_. recon_phase ext hdr na ns nro)"
    have run: "t2_reconstruction ext k c hdr = ?rest (snd ?cw)"
      using Inr x by (cases ?cw) (simp add: t2_reconstruction_def t2_body_def seq_def)
    from after_weights_adds [of "snd ?cw" ext ns A B hdr na nro] obtain aps where
      aps: "trace (snd (?rest (snd ?cw))) = trace (snd ?cw) @ aps" and a: "list_all is_apply aps"
      by (auto simp: adds_def)
    have tr': "trace (snd (t2_reconstruction ext k c hdr)) = inits @ evs @ aps"
      using run aps tr by simp
    have len: "length evs = 2 * (shape k ! 1)"
      using post Inr unfolding weights_post_def by blast
    have nofail: "compute_weights ext E t \<noteq> Inl e" if "Call_compute_weights E t \<in> set evs" for E t e
      using post Inr that by (auto simp: weights_post_def)
    have mem: "Call_compute_weights E t \<in> set evs"
      if "Call_compute_weights E t \<in> set (inits @ evs @ aps)" for E t
      using phased_trace_compute_mem [OF i a that] .
    have "False" if "Call_compute_weights E t \<in> set (inits @ evs @ aps)"
      and "compute_weights ext E t = Inl e" for E t e
      using nofail [OF mem [OF that(1)], of e] that(2) by simp
    then show ?thesis
      unfolding tr'
      using phased_trace_ordered [OF i c a] phased_trace_computes [OF i c a] len
      by (intro conjI allI impI) (simp_all, blast+)
  qed
qed



theorem weights_before_application_witness:
  "fst (t2_reconstruction failing_calibration kspace_3_1_1_1_1 calib_1_1_1_1 [])
     = Inl (External ''CalibrationInsufficientError'') \<and>
   \<not> has_apply (trace (snd (t2_reconstruction failing_calibration kspace_3_1_1_1_1
                                calib_1_1_1_1 []))) \<and>
   has_apply (trace (snd (t2_reconstruction passthrough kspace_3_1_1_1_1 calib_1_1_1_1 []))) \<and>
   computes_before_applies
     (trace (snd (t2_reconstruction passthrough kspace_3_1_1_1_1 calib_1_1_1_1 []))) \<and>
   length (filter is_compute
     (trace (snd (t2_reconstruction passthrough kspace_3_1_1_1_1 calib_1_1_1_1 [])))) = 2"
  using weights_before_application [of failing_calibration kspace_3_1_1_1_1 calib_1_1_1_1 "[]"]
    weights_before_application [of passthrough kspace_3_1_1_1_1 calib_1_1_1_1 "[]"]
  by (simp add: run_failing_calibration run_passthrough has_apply_def
      computes_before_applies_def)


text \<open>
  C2, as the code has it. With two averages and at least one slice there is no shape test:
  the first call on a collaborator is the construction of the engine for slice 0 of
  average 0, and the run never returns a result, it ends in an exception; when the engines
  can be built, compute their weights and \<^verbatim>\<open>apply_weights\<close> keeps shapes, that exception is
  the IndexError of \<^verbatim>\<open>kspace_data[2, 0, ...]\<close>.
\<close>

theorem two_averages_no_shape_check:
  assumes "shape k = [2, ns, nc, nro, npe]" and "0 < ns"
  shows "(\<exists>e. fst (t2_reconstruction ext k c hdr) = Inl e) \<and>
         (\<exists>t rest. engine_input k 0 0 = Inr t \<and>
            trace (snd (t2_reconstruction ext k c hdr)) = Call_Grappa t # rest) \<and>
         (wf k \<and> engines_ready ext k c ns \<and> apply_keeps_shape ext \<longrightarrow>
            fst (t2_reconstruction ext k c hdr) = Inl IndexError)"
proof (intro conjI impI)
  show "\<exists>e. fst (t2_reconstruction ext k c hdr) = Inl e"
  proof (cases "fst (t2_reconstruction ext k c hdr)")
    case (Inl e)
    then show ?thesis by blast
  next
    case (Inr out)
    from returning_run_applies [OF Inr] obtain A B where
      eq: "map Inr (filter is_apply (trace (snd (t2_reconstruction ext k c hdr))))
       = map (expected_apply ext k c 0 A) [0..<shape k ! 1]
         @ map (expected_apply ext k c 1 B) [0..<shape k ! 1]
         @ map (expected_apply ext k c 2 A) [0..<shape k ! 1]"
      by blast
    have mem: "0 \<in> set [0..<shape k ! 1]"
      using assms by simp
    have "\<exists>x. expected_apply ext k c 2 A 0 = Inr x"
      using eq mem by (rule map_Inr_eq_append3D)
    then obtain x where "expected_apply ext k c 2 A 0 = Inr x" ..
    moreover have "expected_apply ext k c 2 A 0 = Inl IndexError"
      using engine_input_out_of_range [OF assms(1), of 2 0] by (simp add: expected_apply_def)
    ultimately show ?thesis by simp
  qed
next
  from engine_input_in_range [OF assms(1), of 0 0] assms(2)
  obtain t where t: "engine_input k 0 0 = Inr t" by auto
  from run_trace_phases [of ext k c hdr] obtain inits evs aps where
    tr: "trace (snd (t2_reconstruction ext k c hdr)) = inits @ evs @ aps"
    and hd: "\<forall>t. engine_input k 0 0 = Inr t \<longrightarrow> unpack5 (shape k) \<noteq> Inl ValueError
            \<longrightarrow> take 1 inits = [Call_Grappa t]"
    by blast
  have "unpack5 (shape k) \<noteq> Inl ValueError"
    using assms(1) by (simp add: unpack5_def)
  with hd t have "take 1 inits = [Call_Grappa t]" by blast
  then obtain rest where "inits = Call_Grappa t # rest"
    by (cases inits) auto
  with tr t show "\<exists>t rest. engine_input k 0 0 = Inr t \<and>
            trace (snd (t2_reconstruction ext k c hdr)) = Call_Grappa t # rest"
    by simp
next
  assume "wf k \<and> engines_ready ext k c ns \<and> apply_keeps_shape ext"
  with two_averages_run_index_error [OF assms, of ext c hdr]
  show "fst (t2_reconstruction ext k c hdr) = Inl IndexError" by blast
qed

theorem two_averages_no_shape_check_witness:
  "wf kspace_2_1_1_1_1 \<and> engines_ready passthrough kspace_2_1_1_1_1 calib_1_1_1_1 1 \<and>
   apply_keeps_shape passthrough \<and>
   fst (t2_reconstruction passthrough kspace_2_1_1_1_1 calib_1_1_1_1 []) = Inl IndexError \<and>
   engine_input kspace_2_1_1_1_1 0 0 = Inr \<lparr>shape = [1, 1, 1], data = [0]\<rparr> \<and>
   hd (trace (snd (t2_reconstruction passthrough kspace_2_1_1_1_1 calib_1_1_1_1 [])))
     = Call_Grappa \<lparr>shape = [1, 1, 1], data = [0]\<rparr>"
  using two_averages_no_shape_check [of kspace_2_1_1_1_1 1 1 1 1 passthrough calib_1_1_1_1 "[]"]
    passthrough_engines_ready [of kspace_2_1_1_1_1 2 1 1 1 1 calib_1_1_1_1 1 1 1 1]
  by (simp add: run_two_averages passthrough_apply_keeps_shape)
     (simp add: kspace_2_1_1_1_1_def calib_1_1_1_1_def engine_input_def array_defs wf_def)

text \<open>
  C2 as stated fails: on a k-space with two averages the run builds both engines, computes
  the weights, applies them to averages 0 and 1 and then ends in the IndexError of
  \<^verbatim>\<open>kspace_data[2, 0, ...]\<close>.
\<close>

theorem two_averages_index_error:
  "fst (t2_reconstruction passthrough kspace_2_1_1_1_1 calib_1_1_1_1 []) = Inl IndexError \<and>
   filter is_init (trace (snd (t2_reconstruction passthrough kspace_2_1_1_1_1 calib_1_1_1_1 [])))
     = [Call_Grappa \<lparr>shape = [1, 1, 1], data = [0]\<rparr>,
        Call_Grappa \<lparr>shape = [1, 1, 1], data = [1]\<rparr>]"
  by (simp add: run_two_averages)







text \<open>
  C7. When the k-space is all zero and \<^verbatim>\<open>apply_weights\<close> turns an all-zero k-space into an
  all-zero k-space (as do the padding, the inverse transform and the crop, which add,
  combine linearly and select samples), the image stack that \<open>t2_reconstruction\<close> returns
  is all zero, whatever the calibration data and the header.
\<close>

theorem zero_kspace_gives_zero_image:
  assumes "fst (t2_reconstruction ext k c hdr) = Inr out" and "wf k" and "all_zero k"
    and "\<forall>E w. maps_zero_to_zero (\<lambda>t. apply_weights ext E t w)"
    and "maps_zero_to_zero (zero_pad_kspace_hdr ext hdr)"
    and "maps_zero_to_zero (\<lambda>a. ifftnd ext a [1, 2])"
    and "maps_zero_to_zero (\<lambda>a. center_crop_im ext a [320, 320])"
  shows "\<exists>img. out = [(''reconstruction_rss'', img)] \<and> all_zero img"
  using assms by (rule zero_in_zero_out)

theorem zero_kspace_gives_zero_image_witness:
  "fst (t2_reconstruction passthrough (np_zeros [3, 1, 1, 1, 1]) calib_1_1_1_1 [])
     = Inr [(''reconstruction_rss'', \<lparr>shape = [1, 1, 1], data = [0]\<rparr>)] \<and>
   all_zero (np_zeros [3, 1, 1, 1, 1] :: complex ndarray) \<and>
   all_zero \<lparr>shape = [1, 1, 1], data = [0 :: real]\<rparr>"
  using zero_kspace_gives_zero_image [of passthrough "np_zeros [3, 1, 1, 1, 1]" calib_1_1_1_1
      "[]" "[(''reconstruction_rss'', \<lparr>shape = [1, 1, 1], data = [0]\<rparr>)]"]
    run_passthrough_zero
  by (simp add: passthrough_maps_zero_to_zero)

end
